theory Spec2Isabelle
  imports Main "HOL-Library.Sublist"
begin

section \<open>Wiki revisions to git commits: the sync engine of \<open>sync_git.py\<close>\<close>

text \<open>
  The development embeds the incremental-sync logic of \<open>sync_git.py\<close>: cursor recovery
  (\<open>get_last_saved_revision\<close>), the incremental diff (\<open>get_recent_revisions\<close>), the
  replay (\<open>save_revision\<close>, \<open>add_commit\<close>), the two page handlers and \<open>main\<close>.
  The wiki API and the \<open>git\<close> binary are outside the program: the first appears as a
  record of the data the API returns, the second as a small state machine over the working
  tree, the staging area and the commit log. Logger calls, argument parsing and
  authentication are left out.
\<close>

subsection \<open>Data model\<close>

text \<open>
  A revision as the wiki API yields it. A listing entry (\<open>revision["id"]\<close>,
  \<open>revision["page"]\<close>) and the page fetched at that revision (\<open>revision_id\<close>,
  \<open>name\<close>, \<open>revision_by\<close>, \<open>revision_date\<close>, \<open>reason\<close>, \<open>content_md\<close>) are one
  record: the page fetched by \<open>revision["page"].revision(revision["id"])\<close> carries that
  id and that page's name. \<open>revision_by\<close> holds the author's name and is \<open>None\<close> for a
  deleted account; \<open>reason\<close> is \<open>None\<close> when no reason was given.
\<close>

record revision =
  revision_id :: string
  page_name :: string
  revision_by :: "string option"
  revision_date :: int
  reason :: "string option"
  content_md :: string

text \<open>
The answer of \<open>page.mod.settings()\<close>, as far as the program reads it.
\<close>

record page_settings =
  permlevel :: int
  listed :: bool

text \<open>
  The exceptions the modelled code can raise. \<open>ValueError\<close> is what \<open>uuid.UUID\<close>
  raises and \<open>get_last_saved_revision\<close> catches; \<open>IndexError\<close> is what
  \<open>output_list[-1]\<close> raises on an empty list.
\<close>

datatype error = IndexError | ValueError

subsection \<open>Python strings\<close>

text \<open>
  Strings are lists of characters with code points below 256. \<open>py_isspace\<close> is
  \<open>str.isspace\<close> on that range, \<open>py_split\<close> is \<open>str.split()\<close> without arguments,
  \<open>py_strip\<close> is \<open>str.strip()\<close>, \<open>py_strip_chars\<close> is \<open>str.strip(chars)\<close>,
  \<open>py_replace\<close> is \<open>str.replace\<close> for a non-empty pattern, \<open>py_last\<close> is the
  index \<open>[-1]\<close>, \<open>py_truthy\<close> the truth value of an optional string or list, and
  \<open>py_format\<close> the rendering of an optional string inside an f-string.
\<close>

definition nl :: char where
  "nl = CHR 0x0A"

definition py_isspace :: "char \<Rightarrow> bool" where
  "py_isspace c = (c \<in> set [CHR 0x09, CHR 0x0A, CHR 0x0B, CHR 0x0C, CHR 0x0D,
      CHR 0x1C, CHR 0x1D, CHR 0x1E, CHR 0x1F, CHR 0x20, CHR 0x85, CHR 0xA0])"

fun split_from :: "string \<Rightarrow> string \<Rightarrow> string list" where
  "split_from tok [] = (if tok = [] then [] else [tok])"
| "split_from tok (c # cs) =
     (if py_isspace c then (if tok = [] then split_from [] cs else tok # split_from [] cs)
      else split_from (tok @ [c]) cs)"

definition py_split :: "string \<Rightarrow> string list" where
  "py_split s = split_from [] s"

definition py_strip_chars :: "(char \<Rightarrow> bool) \<Rightarrow> string \<Rightarrow> string" where
  "py_strip_chars P s = rev (dropWhile P (rev (dropWhile P s)))"

definition py_strip :: "string \<Rightarrow> string" where
  "py_strip s = py_strip_chars py_isspace s"

fun py_replace :: "string \<Rightarrow> string \<Rightarrow> string \<Rightarrow> string" where
  "py_replace old new [] = []"
| "py_replace old new (c # cs) =
     (if old \<noteq> [] \<and> prefix old (c # cs)
      then new @ py_replace old new (drop (length old) (c # cs))
      else c # py_replace old new cs)"

definition py_last :: "'a list \<Rightarrow> error + 'a" where
  "py_last xs = (if xs = [] then Inl IndexError else Inr (last xs))"

definition py_truthy :: "'a list option \<Rightarrow> bool" where
  "py_truthy x = (case x of None \<Rightarrow> False | Some s \<Rightarrow> s \<noteq> [])"

definition py_format :: "string option \<Rightarrow> string" where
  "py_format x = (case x of None \<Rightarrow> ''None'' | Some s \<Rightarrow> s)"

subsection \<open>UUIDs\<close>

text \<open>
  \<open>py_int16\<close> is \<open>int(s, 16)\<close>: surrounding whitespace, an optional sign, an optional
  \<open>0x\<close> prefix, then hexadecimal digits with single underscores between them.
  \<open>uuid_UUID\<close> is the constructor \<open>uuid.UUID(hex)\<close>: it removes \<open>urn:\<close> and
  \<open>uuid:\<close>, strips braces, removes hyphens, demands 32 characters and reads them with
  \<open>int(hex, 16)\<close>. \<open>uuid_str\<close> is \<open>str\<close> of the resulting object: 32 lower-case
  hexadecimal digits, hyphenated 8-4-4-4-12. The value of a UUID object lies in
  \<open>0 \<le> i < 2 ^ 128\<close>, where \<open>'%032x'\<close> has exactly 32 digits.
\<close>

definition hex_digit_value :: "char \<Rightarrow> int option" where
  "hex_digit_value c =
     map_of (zip ''0123456789abcdefABCDEF''
       [0, 1, 2, 3, 4, 5, 6, 7, 8, 9, 10, 11, 12, 13, 14, 15, 10, 11, 12, 13, 14, 15]) c"

fun scan_digits :: "int \<Rightarrow> bool \<Rightarrow> string \<Rightarrow> int option" where
  "scan_digits acc prev_underscore [] = (if prev_underscore then None else Some acc)"
| "scan_digits acc prev_underscore (c # cs) =
     (if c = CHR ''_'' then (if prev_underscore then None else scan_digits acc True cs)
      else (case hex_digit_value c of
              None \<Rightarrow> None
            | Some v \<Rightarrow> scan_digits (16 * acc + v) False cs))"

definition py_int16 :: "string \<Rightarrow> error + int" where
  "py_int16 s =
     (let s1 = py_strip s;
          sign = (if take 1 s1 = ''-'' then - 1 else 1);
          s2 = (if take 1 s1 = ''+'' \<or> take 1 s1 = ''-'' then drop 1 s1 else s1);
          s3 = (if take 2 s2 = ''0x'' \<or> take 2 s2 = ''0X''
                then (if take 1 (drop 2 s2) = ''_'' then drop 3 s2 else drop 2 s2)
                else s2)
      in if s3 = [] \<or> take 1 s3 = ''_'' then Inl ValueError
         else (case scan_digits 0 False s3 of
                 None \<Rightarrow> Inl ValueError
               | Some n \<Rightarrow> Inr (sign * n)))"

definition uuid_UUID :: "string \<Rightarrow> error + int" where
  "uuid_UUID hex0 =
     (let hex1 = py_replace ''uuid:'' '''' (py_replace ''urn:'' '''' hex0);
          hex2 = py_replace ''-'' '''' (py_strip_chars (\<lambda>c. c \<in> set ''{}'') hex1)
      in if length hex2 \<noteq> 32 then Inl ValueError
         else (case py_int16 hex2 of
                 Inl e \<Rightarrow> Inl e
               | Inr i \<Rightarrow> if \<not> (0 \<le> i \<and> i < 2 ^ 128) then Inl ValueError else Inr i))"

definition hex_digit :: "int \<Rightarrow> char" where
  "hex_digit v = ''0123456789abcdef'' ! nat v"

fun to_hex :: "nat \<Rightarrow> int \<Rightarrow> string" where
  "to_hex 0 n = []"
| "to_hex (Suc k) n = to_hex k (n div 16) @ [hex_digit (n mod 16)]"

definition uuid_str :: "int \<Rightarrow> string" where
  "uuid_str i =
     (let hex = to_hex 32 i
      in take 8 hex @ ''-'' @ take 4 (drop 8 hex) @ ''-'' @ take 4 (drop 12 hex) @ ''-''
           @ take 4 (drop 16 hex) @ ''-'' @ drop 20 hex)"

subsection \<open>The repository\<close>

text \<open>
  The environment of a commit (\<open>GIT_AUTHOR_DATE\<close>, \<open>GIT_AUTHOR_NAME\<close>, ...) as
  \<open>add_commit\<close> sets it; the dates are the integers whose decimal rendering
  \<open>str(int(commit_timestamp))\<close> is passed. A commit records that environment, the message
  given with \<open>-m\<close> and the paths it changes with their new content.
\<close>

record git_env =
  author_date :: int
  author_name :: string
  author_email :: string
  committer_date :: int
  committer_name :: string
  committer_email :: string

record commit = git_env +
  message :: string
  changes :: "(string \<times> string) list"

text \<open>
  The state the program acts on: the files of the working tree, the staged changes (paths
  whose staged content differs from the last commit) and the commit log, newest first.
\<close>

record world =
  files :: "string \<Rightarrow> string option"
  staged :: "(string \<times> string) list"
  commits :: "commit list"

text \<open>
  What the process reads but does not own: the subreddit's name, \<open>CONFIG["email"]\<close>,
  the pages of the wiki (\<open>subreddit.wiki\<close>), every page's revisions newest first
  (\<open>page.revisions(limit=None)\<close>), the wiki-wide feed of recent revisions newest first
  (\<open>subreddit.wiki.revisions()\<close>), the pages' settings, and the header lines
  (\<open>commit\<close>, \<open>Author:\<close>, \<open>Date:\<close>) that \<open>git log\<close> prints for a commit. The
  header is a parameter: object names and date formats are git's business, and every
  theorem below holds for any header.
\<close>

record environment =
  display_name :: string
  config_email :: "string option"
  wiki_pages :: "string list"
  page_revisions :: "string \<Rightarrow> revision list"
  wiki_revisions :: "revision list"
  mod_settings :: "string \<Rightarrow> page_settings"
  log_header :: "commit \<Rightarrow> string"

definition PERMLEVEL_MOD_ONLY :: int where
  "PERMLEVEL_MOD_ONLY = 2"

text \<open>
  \<open>head_content\<close> is the content of a path in the last commit. \<open>git add\<close> stages
  the file's content, or drops the path from the staged changes when the content is that of
  the last commit; on a missing file it fails and changes nothing.
\<close>

fun head_content :: "commit list \<Rightarrow> string \<Rightarrow> string option" where
  "head_content [] p = None"
| "head_content (c # cs) p =
     (case map_of (changes c) p of Some x \<Rightarrow> Some x | None \<Rightarrow> head_content cs p)"

definition git_add :: "string \<Rightarrow> world \<Rightarrow> world" where
  "git_add p w =
     (case files w p of
        None \<Rightarrow> w
      | Some x \<Rightarrow>
          w\<lparr>staged :=
              (if head_content (commits w) p = Some x then filter (\<lambda>e. fst e \<noteq> p) (staged w)
               else (p, x) # filter (\<lambda>e. fst e \<noteq> p) (staged w))\<rparr>)"

text \<open>
  \<open>git commit -m msg\<close> returns its exit status and the new state. It refuses, with
  status 1 and no change, when nothing is staged (``nothing to commit'') and when the message
  is blank (``empty commit message''); otherwise it records the staged changes.
\<close>

definition git_isspace :: "char \<Rightarrow> bool" where
  "git_isspace c = (c \<in> set [CHR 0x09, CHR 0x0A, CHR 0x0B, CHR 0x0C, CHR 0x0D, CHR 0x20])"

definition git_commit :: "git_env \<Rightarrow> string \<Rightarrow> world \<Rightarrow> int \<times> world" where
  "git_commit env msg w =
     (if staged w = [] \<or> list_all git_isspace msg then (1, w)
      else (0, w\<lparr>commits := git_env.extend env \<lparr>message = msg, changes = staged w\<rparr> # commits w,
                  staged := []\<rparr>))"

text \<open>
  \<open>git log -n 1 --pretty=medium -- pathspec...\<close>: the newest commit that changes one of
  the paths, printed as the header lines, an empty line and the message indented by four
  spaces; nothing when no commit changes them. \<open>argv\<close> is the whole command line, the
  paths are what follows its first six words.
\<close>

definition indent_message :: "string \<Rightarrow> string" where
  "indent_message msg =
     ''    '' @ concat (map (\<lambda>c. if c = nl then nl # ''    '' else [c]) msg) @ [nl]"

definition pretty_medium :: "environment \<Rightarrow> commit \<Rightarrow> string" where
  "pretty_medium env c = log_header env c @ [nl] @ indent_message (message c)"

definition git_log :: "environment \<Rightarrow> string list \<Rightarrow> world \<Rightarrow> string" where
  "git_log env argv w =
     (case find (\<lambda>c. \<exists>p \<in> set (drop 6 argv). p \<in> set (map fst (changes c))) (commits w) of
        None \<Rightarrow> []
      | Some c \<Rightarrow> pretty_medium env c)"

subsection \<open>Replay: \<open>add_commit\<close> and \<open>save_revision\<close>\<close>

text \<open>
  \<open>add_commit\<close> runs \<open>git add\<close>, builds the environment and runs \<open>git commit\<close>.
  Both calls are \<open>subprocess.run\<close> without \<open>check\<close>: the exit status is dropped,
  which is \<open>snd\<close> here.
\<close>

definition add_commit ::
    "environment \<Rightarrow> string \<Rightarrow> int \<Rightarrow> string option \<Rightarrow> string \<Rightarrow> world \<Rightarrow> world" where
  "add_commit env file_path commit_timestamp commit_author commit_message w =
     (let w1 = git_add file_path w;
          commit_email =
            (if \<not> py_truthy (config_email env)
             then py_format commit_author @ ''@'' @ display_name env @ ''.reddit''
             else the (config_email env));
          genv = \<lparr>author_date = commit_timestamp,
                  author_name = (if py_truthy commit_author then the commit_author else ''[deleted]''),
                  author_email = commit_email,
                  committer_date = commit_timestamp,
                  committer_name = (if py_truthy commit_author then the commit_author else ''[deleted]''),
                  committer_email = commit_email\<rparr>
      in snd (git_commit genv commit_message w1))"

text \<open>
  The file of a page, \<open>pathlib.Path(subreddit.display_name) / f"{name}.md"\<close>, for names
  that \<open>pathlib\<close> leaves as they are.
\<close>

definition page_path :: "environment \<Rightarrow> string \<Rightarrow> string" where
  "page_path env page = display_name env @ ''/'' @ page @ ''.md''"

text \<open>
The commit message of a revision, as \<open>save_revision\<close> builds it.
\<close>

definition commit_message_of :: "revision \<Rightarrow> string" where
  "commit_message_of r =
     (if py_truthy (reason r) then the (reason r) @ [nl, nl] @ revision_id r else revision_id r)"

text \<open>
\<open>save_revision\<close> overwrites the page's file with the revision's text and commits it.
\<close>

definition save_revision :: "environment \<Rightarrow> revision \<Rightarrow> world \<Rightarrow> world" where
  "save_revision env r w =
     (let file_path = page_path env (page_name r);
          w1 = w\<lparr>files := (files w)(file_path \<mapsto> content_md r)\<rparr>;
          author = revision_by r;
          commit_message = commit_message_of r
      in add_commit env file_path (revision_date r) author commit_message w1)"

text \<open>
The loop \<open>for revision in revisions: save_revision(revision)\<close>.
\<close>

fun save_revisions :: "environment \<Rightarrow> revision list \<Rightarrow> world \<Rightarrow> world" where
  "save_revisions env [] w = w"
| "save_revisions env (r # rs) w = save_revisions env rs (save_revision env r w)"

subsection \<open>Cursor recovery\<close>

text \<open>
  \<open>get_last_saved_revision\<close>. The command line is split at whitespace as the source
  does; \<open>decode\<close> is the identity on the characters modelled. The index
  \<open>output_list[-1]\<close> stands before the conversion, inside the \<open>try\<close> that catches
  \<open>ValueError\<close> only.
\<close>

definition get_last_saved_revision :: "environment \<Rightarrow> string \<Rightarrow> world \<Rightarrow> error + string option" where
  "get_last_saved_revision env file_path w =
     (if files w file_path = None then Inr None
      else
        (let output = git_log env (py_split (''git log -n 1 --pretty=medium -- '' @ file_path)) w;
             output_list = py_split (py_strip output)
         in case py_last output_list of
              Inl e \<Rightarrow> Inl e
            | Inr tok \<Rightarrow>
                (case uuid_UUID tok of
                   Inl ValueError \<Rightarrow> Inr None
                 | Inl e \<Rightarrow> Inl e
                 | Inr revision_uuid \<Rightarrow> Inr (Some (uuid_str revision_uuid)))))"

subsection \<open>The incremental diff\<close>

text \<open>
  The loop of \<open>get_recent_revisions\<close>: walk the newest-first listing, stop at the
  revision whose id is the cursor, and put every revision walked before it at the front of
  the result (\<open>revision_list.insert(0, revision)\<close>).
\<close>

fun walk_revisions :: "revision list \<Rightarrow> string \<Rightarrow> revision list \<Rightarrow> revision list" where
  "walk_revisions [] last_revision revision_list = revision_list"
| "walk_revisions (r # rs) last_revision revision_list =
     (if revision_id r = last_revision then revision_list
      else walk_revisions rs last_revision (r # revision_list))"

definition get_recent_revisions :: "revision list \<Rightarrow> string option \<Rightarrow> revision list" where
  "get_recent_revisions revisions last_revision =
     (case last_revision of
        None \<Rightarrow> rev revisions
      | Some l \<Rightarrow> walk_revisions revisions l [])"

subsection \<open>The page handlers and \<open>main\<close>\<close>

definition handle_full_page ::
    "environment \<Rightarrow> string \<Rightarrow> string list option \<Rightarrow> bool \<Rightarrow> bool \<Rightarrow> world \<Rightarrow> error + world" where
  "handle_full_page env page ignore_list include_mod include_unlisted w =
     (if py_truthy ignore_list \<and> page \<in> set (the ignore_list) then Inr w
      else if \<not> include_mod \<and> permlevel (mod_settings env page) = PERMLEVEL_MOD_ONLY then Inr w
      else if \<not> include_unlisted \<and> \<not> listed (mod_settings env page) then Inr w
      else
        (case get_last_saved_revision env (page_path env page) w of
           Inl e \<Rightarrow> Inl e
         | Inr last_revision \<Rightarrow>
             Inr (save_revisions env
                    (get_recent_revisions (page_revisions env page) last_revision) w)))"

text \<open>
  The \<open>for ... else\<close> of \<open>_handle_revisions_for_page\<close>: \<open>Some\<close> of the slice
  \<open>revisions[index + 1:]\<close> at the first revision whose id is the cursor, \<open>None\<close> when
  the loop ends without \<open>break\<close>.
\<close>

fun revisions_after :: "revision list \<Rightarrow> string option \<Rightarrow> revision list option" where
  "revisions_after [] last_revision = None"
| "revisions_after (r # rs) last_revision =
     (if Some (revision_id r) = last_revision then Some rs
      else revisions_after rs last_revision)"

definition handle_revisions_for_page :: "environment \<Rightarrow> revision list \<Rightarrow> world \<Rightarrow> error + world" where
  "handle_revisions_for_page env revisions w =
     (if revisions = [] then Inr w
      else
        (let page = page_name (hd revisions)
         in case get_last_saved_revision env (page_path env page) w of
              Inl e \<Rightarrow> Inl e
            | Inr last_revision \<Rightarrow>
                (case revisions_after revisions last_revision of
                   None \<Rightarrow> handle_full_page env page None True True w
                 | Some revisions_to_save \<Rightarrow> Inr (save_revisions env revisions_to_save w))))"

text \<open>
A loop over a list whose body may raise: the first exception ends the loop.
\<close>

fun for_each :: "('a \<Rightarrow> world \<Rightarrow> error + world) \<Rightarrow> 'a list \<Rightarrow> world \<Rightarrow> error + world" where
  "for_each body [] w = Inr w"
| "for_each body (x # xs) w =
     (case body x w of Inl e \<Rightarrow> Inl e | Inr w' \<Rightarrow> for_each body xs w')"

text \<open>
  The dictionary \<open>revisions_by_page\<close> of \<open>main\<close>, in insertion order, and the body of
  the loop over its items.
\<close>

fun append_revision ::
    "revision \<Rightarrow> (string \<times> revision list) list \<Rightarrow> (string \<times> revision list) list" where
  "append_revision r [] = [(page_name r, [r])]"
| "append_revision r ((k, v) # kvs) =
     (if k = page_name r then (k, v @ [r]) # kvs else (k, v) # append_revision r kvs)"

definition revisions_by_page :: "revision list \<Rightarrow> (string \<times> revision list) list" where
  "revisions_by_page revisions = foldl (\<lambda>d r. append_revision r d) [] revisions"

definition handle_recent_entry ::
    "environment \<Rightarrow> string list option \<Rightarrow> string list option \<Rightarrow> bool \<Rightarrow> bool \<Rightarrow>
     string \<times> revision list \<Rightarrow> world \<Rightarrow> error + world" where
  "handle_recent_entry env page_list ignore_list include_mod include_unlisted entry w =
     (let page_name = fst entry; revisions = snd entry;
          settings = mod_settings env page_name
      in if py_truthy page_list \<and> page_name \<notin> set (the page_list) then Inr w
         else if py_truthy ignore_list \<and> page_name \<in> set (the ignore_list) then Inr w
         else if \<not> include_mod \<and> permlevel settings = PERMLEVEL_MOD_ONLY then Inr w
         else if \<not> include_unlisted \<and> \<not> listed settings then Inr w
         else handle_revisions_for_page env revisions w)"

definition main ::
    "environment \<Rightarrow> string list option \<Rightarrow> string list option \<Rightarrow> bool \<Rightarrow> bool \<Rightarrow> bool \<Rightarrow>
     world \<Rightarrow> error + world" where
  "main env page_list ignore_list0 include_full include_mod include_unlisted w =
     (let ignore_list = (case ignore_list0 of None \<Rightarrow> Some [] | Some l \<Rightarrow> Some l)
      in if include_full \<and> \<not> py_truthy page_list
         then for_each (\<lambda>page. handle_full_page env page ignore_list include_mod include_unlisted)
                (wiki_pages env) w
         else if include_full \<and> py_truthy page_list
         then for_each (\<lambda>page_name. handle_full_page env page_name ignore_list include_mod include_unlisted)
                (the page_list) w
         else for_each (handle_recent_entry env page_list ignore_list include_mod include_unlisted)
                (revisions_by_page (rev (wiki_revisions env))) w)"

subsection \<open>Vocabulary of the statements\<close>

text \<open>
  A token is a non-empty string without whitespace (\<open>no_space\<close>). A canonical UUID is
  the hyphenated form of 32 lower-case hexadecimal digits. \<open>hex_value\<close> reads digits,
  \<open>last_touching\<close> is the newest commit that changes a path, \<open>parse_tokens\<close> is the
  part of cursor recovery after the split, and \<open>commit_of\<close> is the commit that
  \<open>save_revision\<close> asks git to record.
\<close>

definition no_space :: "string \<Rightarrow> bool" where
  "no_space s = list_all (\<lambda>c. \<not> py_isspace c) s"

definition lower_hex :: "char \<Rightarrow> bool" where
  "lower_hex c = (c \<in> set ''0123456789abcdef'')"

definition hyphenate :: "string \<Rightarrow> string" where
  "hyphenate hex = take 8 hex @ ''-'' @ take 4 (drop 8 hex) @ ''-'' @ take 4 (drop 12 hex) @ ''-''
           @ take 4 (drop 16 hex) @ ''-'' @ drop 20 hex"

definition canonical_uuid :: "string \<Rightarrow> bool" where
  "canonical_uuid s =
     (let hex = filter (\<lambda>c. c \<noteq> CHR ''-'') s
      in length hex = 32 \<and> list_all lower_hex hex \<and> s = hyphenate hex)"

definition hex_value :: "int \<Rightarrow> string \<Rightarrow> int" where
  "hex_value acc s = foldl (\<lambda>a c. 16 * a + the (hex_digit_value c)) acc s"

definition last_touching :: "string \<Rightarrow> commit list \<Rightarrow> commit option" where
  "last_touching p cs = find (\<lambda>c. p \<in> set (map fst (changes c))) cs"

definition parse_tokens :: "string list \<Rightarrow> error + string option" where
  "parse_tokens output_list =
     (case py_last output_list of
        Inl e \<Rightarrow> Inl e
      | Inr tok \<Rightarrow>
          (case uuid_UUID tok of
             Inl ValueError \<Rightarrow> Inr None
           | Inl e \<Rightarrow> Inl e
           | Inr revision_uuid \<Rightarrow> Inr (Some (uuid_str revision_uuid))))"

definition commit_of :: "environment \<Rightarrow> revision \<Rightarrow> commit" where
  "commit_of env r =
     (let commit_email =
            (if \<not> py_truthy (config_email env)
             then py_format (revision_by r) @ ''@'' @ display_name env @ ''.reddit''
             else the (config_email env));
          who = (if py_truthy (revision_by r) then the (revision_by r) else ''[deleted]'')
      in \<lparr>author_date = revision_date r, author_name = who, author_email = commit_email,
          committer_date = revision_date r, committer_name = who, committer_email = commit_email,
          message = commit_message_of r,
          changes = [(page_path env (page_name r), content_md r)]\<rparr>)"

text \<open>
  \<open>kept h rs\<close> lists the revisions of a replay whose text differs from the text
  committed before them, \<open>h\<close> being the text in the last commit before the replay: the
  revisions for which \<open>git commit\<close> finds a change.
\<close>

fun kept :: "string option \<Rightarrow> revision list \<Rightarrow> revision list" where
  "kept h [] = []"
| "kept h (r # rs) =
     (if h = Some (content_md r) then kept h rs else r # kept (Some (content_md r)) rs)"

definition token :: "string \<Rightarrow> bool" where
  "token s = (s \<noteq> [] \<and> no_space s)"

text \<open>
  A page of the source is well formed when its name has no whitespace, its revisions carry
  its name and canonical UUIDs as ids, and no id occurs twice in its history. The recent
  feed is consistent with a page when the feed's revisions of that page are the newest
  revisions of the page's history, in the same order. The candidates of a run are the pages
  it looks at before selection. A page is settled in a state when handling it leaves the
  state as it is.
\<close>

definition well_formed_page :: "environment \<Rightarrow> string \<Rightarrow> bool" where
  "well_formed_page env page =
     (no_space page \<and>
      list_all (\<lambda>r. page_name r = page \<and> canonical_uuid (revision_id r)) (page_revisions env page) \<and>
      distinct (map revision_id (page_revisions env page)))"

definition window_consistent :: "environment \<Rightarrow> string \<Rightarrow> bool" where
  "window_consistent env page =
     prefix (filter (\<lambda>r. page_name r = page) (wiki_revisions env)) (page_revisions env page)"

definition candidates :: "environment \<Rightarrow> string list option \<Rightarrow> bool \<Rightarrow> string list" where
  "candidates env page_list include_full =
     (if include_full then (if py_truthy page_list then the page_list else wiki_pages env)
      else map fst (revisions_by_page (rev (wiki_revisions env))))"

definition settled :: "environment \<Rightarrow> string \<Rightarrow> world \<Rightarrow> bool" where
  "settled env page w = (handle_full_page env page None True True w = Inr w)"

text \<open>
  The exit status of the \<open>git commit\<close> that \<open>save_revision\<close> runs for a revision
  (\<open>save_revision_status\<close> shows it is that call).
\<close>

definition commit_step_status :: "environment \<Rightarrow> revision \<Rightarrow> world \<Rightarrow> int" where
  "commit_step_status env r w =
     (let p = page_path env (page_name r);
          w1 = git_add p (w\<lparr>files := (files w)(p \<mapsto> content_md r)\<rparr>)
      in fst (git_commit (git_env.truncate (commit_of env r)) (commit_message_of r) w1))"

text \<open>
  The selection of a page as the specification words it: the page is not on the ignore
  list, and no page list is given or the page is on it, and the page is not for moderators
  only or those are included, and the page is listed or unlisted ones are included. A page
  list is given when it is a non-empty list.
\<close>

definition selected ::
    "environment \<Rightarrow> string list option \<Rightarrow> string list option \<Rightarrow> bool \<Rightarrow> bool \<Rightarrow> string \<Rightarrow> bool" where
  "selected env page_list ignore_list include_mod include_unlisted page =
     (page \<notin> set (case ignore_list of None \<Rightarrow> [] | Some l \<Rightarrow> l) \<and>
      (\<not> py_truthy page_list \<or> page \<in> set (the page_list)) \<and>
      (permlevel (mod_settings env page) \<noteq> PERMLEVEL_MOD_ONLY \<or> include_mod) \<and>
      (listed (mod_settings env page) \<or> include_unlisted))"

subsection \<open>A small wiki\<close>

text \<open>
  One page, \<open>rules\<close>, in the subreddit \<open>anime\<close>, with three revisions, and a fresh
  repository. The statements below are instantiated on them.
\<close>

definition example_revision :: "string \<Rightarrow> string option \<Rightarrow> int \<Rightarrow> string option \<Rightarrow> string \<Rightarrow> revision" where
  "example_revision i by_name date why text =
     \<lparr>revision_id = i, page_name = ''rules'', revision_by = by_name, revision_date = date,
      reason = why, content_md = text\<rparr>"

definition r1 :: revision where
  "r1 = example_revision ''11111111-1111-4111-8111-111111111111'' (Some ''alice'') 1600000000
          (Some ''first draft'') ''Be kind.''"

definition r2 :: revision where
  "r2 = example_revision ''22222222-2222-4222-8222-222222222222'' None 1600000100
          None ''Be kind. Stay on topic.''"

definition r3 :: revision where
  "r3 = example_revision ''33333333-3333-4333-8333-333333333333'' (Some ''bob'') 1600000200
          (Some ''typo'') ''Be kind. Stay on topic!''"

definition example_header :: "commit \<Rightarrow> string" where
  "example_header c =
     ''commit 0000000000000000000000000000000000000000'' @ [nl] @
     ''Author: '' @ author_name c @ '' <'' @ author_email c @ ''>'' @ [nl] @
     ''Date:   Thu Jan 1 00:00:00 1970 +0000'' @ [nl]"

definition example_env :: "revision list \<Rightarrow> revision list \<Rightarrow> environment" where
  "example_env history window =
     \<lparr>display_name = ''anime'', config_email = None, wiki_pages = [''rules''],
      page_revisions = (\<lambda>page. if page = ''rules'' then history else []),
      wiki_revisions = window,
      mod_settings = (\<lambda>page. \<lparr>permlevel = 0, listed = True\<rparr>),
      log_header = example_header\<rparr>"

definition empty_world :: world where
  "empty_world = \<lparr>files = (\<lambda>p. None), staged = [], commits = []\<rparr>"

definition example_commit :: "string \<Rightarrow> commit" where
  "example_commit msg =
     \<lparr>author_date = 1500000000, author_name = ''carol'', author_email = ''carol@example.org'',
      committer_date = 1500000000, committer_name = ''carol'',
      committer_email = ''carol@example.org'', message = msg,
      changes = [(''anime/rules.md'', ''Draft.'')]\<rparr>"

definition tracked_world :: "commit list \<Rightarrow> world" where
  "tracked_world log = \<lparr>files = (\<lambda>p. if p = ''anime/rules.md'' then Some ''Draft.'' else None),
      staged = [], commits = log\<rparr>"

text \<open>A revision that repeats the text of \<open>r1\<close>.\<close>

definition r2_unchanged :: revision where
  "r2_unchanged = example_revision ''2a2a2a2a-2a2a-42a2-82a2-2a2a2a2a2a2a'' (Some ''dave'') 1600000050
          (Some ''no change'') ''Be kind.''"

section \<open>Lemmas\<close>

subsection \<open>Splitting at whitespace\<close>

lemma split_from_no_space:
  "no_space t \<Longrightarrow> split_from tok t = (if tok @ t = [] then [] else [tok @ t])"
  by (induction t arbitrary: tok) (auto simp: no_space_def)

lemma split_from_append_space:
  "py_isspace c \<Longrightarrow> split_from tok (xs @ c # ys) = split_from tok xs @ split_from [] ys"
  by (induction xs arbitrary: tok) auto

lemma py_split_append_space:
  "py_isspace c \<Longrightarrow> py_split (xs @ c # ys) = py_split xs @ py_split ys"
  by (simp add: py_split_def split_from_append_space)

lemma py_split_token [simp]: "no_space t \<Longrightarrow> t \<noteq> [] \<Longrightarrow> py_split t = [t]"
  by (simp add: py_split_def split_from_no_space)

lemma split_from_all_space:
  "list_all py_isspace b \<Longrightarrow> split_from tok b = split_from tok []"
  by (induction b arbitrary: tok) auto

lemma split_from_trailing_space:
  "list_all py_isspace b \<Longrightarrow> split_from tok (a @ b) = split_from tok a"
proof (induction a arbitrary: tok)
  case Nil
  then show ?case using split_from_all_space by simp
next
  case (Cons x a)
  then show ?case by simp
qed

lemma split_from_dropWhile: "split_from [] (dropWhile py_isspace s) = split_from [] s"
  by (induction s) auto

lemma py_split_strip: "py_split (py_strip s) = py_split s"
proof -
  define d where "d = dropWhile py_isspace s"
  have "d = rev (dropWhile py_isspace (rev d)) @ rev (takeWhile py_isspace (rev d))"
    by (metis rev_append rev_rev_ident takeWhile_dropWhile_id)
  moreover have "list_all py_isspace (rev (takeWhile py_isspace (rev d)))"
    by (simp add: list_all_iff) (meson set_takeWhileD)
  ultimately have "split_from [] (rev (dropWhile py_isspace (rev d))) = split_from [] d"
    by (metis split_from_trailing_space)
  then show ?thesis
    by (simp add: py_split_def py_strip_def py_strip_chars_def d_def split_from_dropWhile)
qed

lemma py_isspace_nl [simp]: "py_isspace nl"
  by (simp add: nl_def py_isspace_def)

lemma py_isspace_blank [simp]: "py_isspace CHR '' ''"
  by (simp add: py_isspace_def)

lemma split_from_indent:
  "split_from tok (concat (map (\<lambda>c. if c = nl then nl # ''    '' else [c]) msg) @ [nl])
     = split_from tok msg"
proof (induction msg arbitrary: tok)
  case Nil
  show ?case by simp
next
  case (Cons c msg)
  show ?case
  proof (cases "c = nl")
    case True
    then show ?thesis using Cons by simp
  next
    case False
    then show ?thesis using Cons by simp
  qed
qed

lemma py_split_indent_message: "py_split (indent_message msg) = py_split msg"
  by (simp add: py_split_def indent_message_def split_from_indent)

lemma py_split_pretty_medium:
  "py_split (pretty_medium env c) = py_split (log_header env c) @ py_split (message c)"
  by (simp add: pretty_medium_def py_split_append_space py_split_indent_message)

lemma lower_hex_value:
  "lower_hex c \<Longrightarrow> \<exists>v. hex_digit_value c = Some v \<and> 0 \<le> v \<and> v < 16 \<and> hex_digit v = c"
  unfolding lower_hex_def hex_digit_value_def hex_digit_def by auto

lemma lower_hex_not_special:
  "lower_hex c \<Longrightarrow> c \<noteq> CHR ''-'' \<and> c \<noteq> CHR ''+'' \<and> c \<noteq> CHR ''_'' \<and> c \<noteq> CHR ''x'' \<and> c \<noteq> CHR ''X''
     \<and> c \<noteq> CHR ''u'' \<and> c \<noteq> CHR ''{'' \<and> c \<noteq> CHR ''}'' \<and> \<not> py_isspace c"
  unfolding lower_hex_def py_isspace_def by auto

lemma hex_digit_lower: "0 \<le> v \<Longrightarrow> v < 16 \<Longrightarrow> lower_hex (hex_digit v)"
proof -
  assume "0 \<le> v" "v < 16"
  then have "nat v < length ''0123456789abcdef''" by simp
  then show ?thesis
    unfolding lower_hex_def hex_digit_def by (rule nth_mem)
qed

lemma scan_digits_lower:
  "list_all lower_hex s \<Longrightarrow> scan_digits acc False s = Some (hex_value acc s)"
proof (induction s arbitrary: acc)
  case Nil
  show ?case by (simp add: hex_value_def)
next
  case (Cons c s)
  then have c: "lower_hex c" and s: "list_all lower_hex s" by simp_all
  from lower_hex_value [OF c] obtain v where v: "hex_digit_value c = Some v" by blast
  from lower_hex_not_special [OF c] have "c \<noteq> CHR ''_''" by simp
  with v Cons.IH [OF s] show ?case by (simp add: hex_value_def)
qed

lemma hex_value_snoc:
  "hex_value acc (s @ [c]) = 16 * hex_value acc s + the (hex_digit_value c)"
  by (simp add: hex_value_def)

lemma hex_value_bounds:
  "list_all lower_hex s \<Longrightarrow> 0 \<le> hex_value 0 s \<and> hex_value 0 s < 16 ^ length s"
proof (induction s rule: rev_induct)
  case Nil
  show ?case by (simp add: hex_value_def)
next
  case (snoc c s)
  then have c: "lower_hex c" and s: "list_all lower_hex s" by simp_all
  from lower_hex_value [OF c] obtain v where v: "hex_digit_value c = Some v" "0 \<le> v" "v < 16" by blast
  from snoc.IH [OF s] have b: "0 \<le> hex_value 0 s" "hex_value 0 s + 1 \<le> 16 ^ length s" by simp_all
  from b(2) have "16 * (hex_value 0 s + 1) \<le> 16 * 16 ^ length s" by simp
  with v b(1) show ?case by (simp add: hex_value_snoc)
qed

lemma to_hex_hex_value:
  "list_all lower_hex s \<Longrightarrow> to_hex (length s) (hex_value 0 s) = s"
proof (induction s rule: rev_induct)
  case Nil
  show ?case by simp
next
  case (snoc c s)
  then have c: "lower_hex c" and s: "list_all lower_hex s" by simp_all
  from lower_hex_value [OF c] obtain v where
    v: "hex_digit_value c = Some v" "0 \<le> v" "v < 16" "hex_digit v = c" by blast
  have "(16 * hex_value 0 s + v) div 16 = hex_value 0 s" using v by simp
  moreover have "(16 * hex_value 0 s + v) mod 16 = v" using v by simp
  ultimately show ?case using snoc.IH [OF s] v by (simp add: hex_value_snoc)
qed

lemma length_to_hex [simp]: "length (to_hex k n) = k"
  by (induction k arbitrary: n) auto

lemma to_hex_lower: "list_all lower_hex (to_hex k n)"
  by (induction k arbitrary: n) (auto simp: hex_digit_lower)

lemma py_replace_absent:
  "c \<notin> set s \<Longrightarrow> py_replace (c # p) new s = s"
  by (induction s) auto

lemma py_replace_char: "py_replace [c] [] s = filter (\<lambda>x. x \<noteq> c) s"
  by (induction s) auto

lemma dropWhile_absent: "\<forall>c \<in> set s. \<not> P c \<Longrightarrow> dropWhile P s = s"
  by (cases s) auto

lemma py_strip_chars_absent:
  "\<forall>c \<in> set s. \<not> P c \<Longrightarrow> py_strip_chars P s = s"
  by (simp add: py_strip_chars_def dropWhile_absent)

lemma uuid_str_hyphenate: "uuid_str i = hyphenate (to_hex 32 i)"
  by (simp add: uuid_str_def hyphenate_def Let_def)

lemma unhyphenate:
  "take 8 h @ take 4 (drop 8 h) @ take 4 (drop 12 h) @ take 4 (drop 16 h) @ drop 20 h = h"
proof -
  have "take 20 h = take 8 h @ take 4 (drop 8 h) @ take 4 (drop 12 h) @ take 4 (drop 16 h)"
    using take_add [of 8 4 h] take_add [of 12 4 h] take_add [of 16 4 h] by simp
  then show ?thesis
    by (metis append_assoc append_take_drop_id)
qed

lemma filter_hyphenate:
  assumes "list_all lower_hex h"
  shows "filter (\<lambda>c. c \<noteq> CHR ''-'') (hyphenate h) = h"
proof -
  have nh: "\<forall>c \<in> set h. c \<noteq> CHR ''-''"
    using assms lower_hex_not_special by (auto simp: list_all_iff)
  have t: "filter (\<lambda>c. c \<noteq> CHR ''-'') (take n (drop m h)) = take n (drop m h)" for n m
    using nh by (auto simp: filter_id_conv dest: in_set_takeD in_set_dropD)
  have d: "filter (\<lambda>c. c \<noteq> CHR ''-'') (drop m h) = drop m h" for m
    using nh by (auto simp: filter_id_conv dest: in_set_dropD)
  have t0: "filter (\<lambda>c. c \<noteq> CHR ''-'') (take n h) = take n h" for n
    using t [of n 0] by simp
  show ?thesis
    by (simp add: hyphenate_def t d t0 unhyphenate)
qed

lemma uuid_str_canonical: "canonical_uuid (uuid_str i)"
  by (simp add: canonical_uuid_def uuid_str_hyphenate filter_hyphenate to_hex_lower)

lemma set_hyphenate: "set (hyphenate h) \<subseteq> insert CHR ''-'' (set h)"
  by (auto simp: hyphenate_def dest: in_set_takeD in_set_dropD)

lemma py_int16_lower:
  assumes low: "list_all lower_hex h" and ne: "h \<noteq> []"
  shows "py_int16 h = Inr (hex_value 0 h)"
proof -
  have nsp: "\<forall>c \<in> set h. \<not> py_isspace c"
    using low lower_hex_not_special by (auto simp: list_all_iff)
  have strip: "py_strip h = h"
    using nsp by (simp add: py_strip_def py_strip_chars_absent)
  from ne obtain a t where h: "h = a # t" by (cases h) auto
  with low have a: "lower_hex a" by simp
  have t1: "take 1 h \<noteq> ''-''" "take 1 h \<noteq> ''+''" "take 1 h \<noteq> ''_''"
    using lower_hex_not_special [OF a] by (simp_all add: h)
  have t2: "take 2 h \<noteq> ''0x'' \<and> take 2 h \<noteq> ''0X''"
  proof (cases t)
    case Nil
    then show ?thesis by (simp add: h)
  next
    case (Cons b t')
    with low h have "lower_hex b" by simp
    from lower_hex_not_special [OF this] show ?thesis by (simp add: h Cons)
  qed
  show ?thesis
    unfolding py_int16_def strip Let_def
    using t1 t2 ne scan_digits_lower [OF low] by simp
qed

lemma uuid_UUID_canonical:
  assumes "canonical_uuid s"
  shows "uuid_UUID s = Inr (hex_value 0 (filter (\<lambda>c. c \<noteq> CHR ''-'') s))"
    and "uuid_str (hex_value 0 (filter (\<lambda>c. c \<noteq> CHR ''-'') s)) = s"
proof -
  define h where "h = filter (\<lambda>c. c \<noteq> CHR ''-'') s"
  from assms have len: "length h = 32" and low: "list_all lower_hex h" and s: "s = hyphenate h"
    by (simp_all add: canonical_uuid_def h_def Let_def)
  have chars: "\<forall>c \<in> set s. c = CHR ''-'' \<or> lower_hex c"
    using set_hyphenate [of h] low s by (auto simp: list_all_iff)
  have nu: "CHR ''u'' \<notin> set s"
    using chars lower_hex_not_special by fastforce
  have nb: "\<forall>c \<in> set s. \<not> c \<in> set ''{}''"
    using chars lower_hex_not_special by fastforce
  have hex2: "py_replace ''-'' '''' (py_strip_chars (\<lambda>c. c \<in> set ''{}'')
      (py_replace ''uuid:'' '''' (py_replace ''urn:'' '''' s))) = h"
    using nu nb by (simp add: py_replace_absent py_strip_chars_absent py_replace_char h_def)
  from len have ne: "h \<noteq> []" by auto
  have int16: "py_int16 h = Inr (hex_value 0 h)"
    using low ne by (rule py_int16_lower)
  from hex_value_bounds [OF low] len have rng: "0 \<le> hex_value 0 h" "hex_value 0 h < 2 ^ 128"
    by simp_all
  show "uuid_UUID s = Inr (hex_value 0 (filter (\<lambda>c. c \<noteq> CHR ''-'') s))"
    using hex2 int16 rng len unfolding uuid_UUID_def h_def [symmetric] by (simp add: Let_def)
  from to_hex_hex_value [OF low] len have "to_hex 32 (hex_value 0 h) = h" by simp
  then show "uuid_str (hex_value 0 (filter (\<lambda>c. c \<noteq> CHR ''-'') s)) = s"
    unfolding h_def [symmetric] by (simp add: uuid_str_hyphenate s)
qed

lemma canonical_uuid_token: "canonical_uuid s \<Longrightarrow> no_space s \<and> s \<noteq> []"
proof -
  assume c: "canonical_uuid s"
  define h where "h = filter (\<lambda>c. c \<noteq> CHR ''-'') s"
  from c have len: "length h = 32" and low: "list_all lower_hex h" and s: "s = hyphenate h"
    by (simp_all add: canonical_uuid_def h_def Let_def)
  have chars: "\<forall>c \<in> set s. c = CHR ''-'' \<or> lower_hex c"
    using set_hyphenate [of h] low s by (auto simp: list_all_iff)
  have d: "\<not> py_isspace CHR ''-''" by (simp add: py_isspace_def)
  have "\<not> py_isspace c" if "c \<in> set s" for c
  proof -
    from chars that have "c = CHR ''-'' \<or> lower_hex c" by blast
    then show ?thesis using d lower_hex_not_special [of c] by blast
  qed
  then have "no_space s"
    by (simp add: no_space_def list_all_iff)
  moreover from len have "s \<noteq> []" by (auto simp: h_def)
  ultimately show ?thesis by simp
qed

lemma argv_pathspec:
  assumes "no_space p" "p \<noteq> []"
  shows "drop 6 (py_split (''git log -n 1 --pretty=medium -- '' @ p)) = [p]"
proof -
  have "py_split (''git log -n 1 --pretty=medium --'' @ CHR '' '' # p)
      = py_split ''git log -n 1 --pretty=medium --'' @ py_split p"
    by (rule py_split_append_space) simp
  moreover have "py_split ''git log -n 1 --pretty=medium --''
      = [''git'', ''log'', ''-n'', ''1'', ''--pretty=medium'', ''--'']"
    by code_simp
  ultimately show ?thesis using assms by simp
qed

lemma git_log_path:
  assumes "no_space p" "p \<noteq> []"
  shows "git_log env (py_split (''git log -n 1 --pretty=medium -- '' @ p)) w
    = (case last_touching p (commits w) of None \<Rightarrow> [] | Some c \<Rightarrow> pretty_medium env c)"
  unfolding git_log_def last_touching_def argv_pathspec [OF assms] by simp

lemma get_last_saved_revision_path:
  assumes "no_space p" "p \<noteq> []"
  shows "get_last_saved_revision env p w =
     (if files w p = None then Inr None
      else case last_touching p (commits w) of
             None \<Rightarrow> Inl IndexError
           | Some c \<Rightarrow> parse_tokens (py_split (log_header env c) @ py_split (message c)))"
proof -
  have e: "py_split [] = []"
    by (simp add: py_split_def)
  show ?thesis
    unfolding get_last_saved_revision_def git_log_path [OF assms]
    by (simp add: Let_def py_split_strip parse_tokens_def py_split_pretty_medium e py_last_def
        split: option.splits)
qed

lemma py_int16_error: "py_int16 s = Inl e \<Longrightarrow> e = ValueError"
  unfolding py_int16_def Let_def by (simp split: if_splits option.splits)

lemma uuid_UUID_error: "uuid_UUID tok = Inl e \<Longrightarrow> e = ValueError"
  unfolding uuid_UUID_def Let_def
  by (simp split: if_splits sum.splits) (auto dest: py_int16_error)

lemma parse_tokens_cases:
  "parse_tokens ts = Inl IndexError \<and> ts = [] \<or>
   parse_tokens ts = Inr None \<and> ts \<noteq> [] \<and> uuid_UUID (last ts) = Inl ValueError \<or>
   (\<exists>i. parse_tokens ts = Inr (Some (uuid_str i)) \<and> ts \<noteq> [] \<and> uuid_UUID (last ts) = Inr i)"
  by (auto simp: parse_tokens_def py_last_def split: sum.splits error.splits dest: uuid_UUID_error)

lemma parse_tokens_canonical:
  "ts \<noteq> [] \<Longrightarrow> canonical_uuid (last ts) \<Longrightarrow> parse_tokens ts = Inr (Some (last ts))"
  by (simp add: parse_tokens_def py_last_def uuid_UUID_canonical)

lemma git_isspace_py: "git_isspace c \<Longrightarrow> py_isspace c"
  by (auto simp: git_isspace_def py_isspace_def)

lemma py_split_commit_message:
  assumes "no_space (revision_id r)" "revision_id r \<noteq> []"
  shows "py_split (commit_message_of r) \<noteq> [] \<and> last (py_split (commit_message_of r)) = revision_id r"
proof (cases "py_truthy (reason r)")
  case True
  have "py_split ((the (reason r) @ [nl]) @ nl # revision_id r)
      = py_split (the (reason r) @ [nl]) @ py_split (revision_id r)"
    by (rule py_split_append_space) simp
  with True assms show ?thesis by (simp add: commit_message_of_def)
next
  case False
  with assms show ?thesis by (simp add: commit_message_of_def)
qed

lemma commit_message_not_blank:
  assumes "no_space (revision_id r)" "revision_id r \<noteq> []"
  shows "\<not> list_all git_isspace (commit_message_of r)"
proof -
  from assms obtain c where c: "c \<in> set (revision_id r)" "\<not> py_isspace c"
    by (cases "revision_id r") (auto simp: no_space_def)
  then have "c \<in> set (commit_message_of r)" by (simp add: commit_message_of_def)
  with c git_isspace_py show ?thesis by (auto simp: list_all_iff)
qed

lemma save_revision_cases:
  "save_revision env r w =
     (let p = page_path env (page_name r);
          w1 = git_add p (w\<lparr>files := (files w)(p \<mapsto> content_md r)\<rparr>)
      in if staged w1 = [] \<or> list_all git_isspace (commit_message_of r) then w1
         else w1\<lparr>commits := (commit_of env r)\<lparr>changes := staged w1\<rparr> # commits w1, staged := []\<rparr>)"
  by (simp add: save_revision_def add_commit_def git_commit_def commit_of_def Let_def
      git_env.extend_def)

lemma head_commit_fields:
  "message ((commit_of env r)\<lparr>changes := s\<rparr>) = commit_message_of r \<and>
   author_date ((commit_of env r)\<lparr>changes := s\<rparr>) = revision_date r \<and>
   committer_date ((commit_of env r)\<lparr>changes := s\<rparr>) = revision_date r"
  by (simp add: commit_of_def Let_def)

lemma git_add_commits [simp]: "commits (git_add p w) = commits w"
  by (simp add: git_add_def split: option.splits)

lemma walk_revisions_takeWhile:
  "walk_revisions rs l acc = rev (takeWhile (\<lambda>r. revision_id r \<noteq> l) rs) @ acc"
  by (induction rs arbitrary: acc) auto

lemma get_recent_revisions_Some:
  "get_recent_revisions rs (Some l) = rev (takeWhile (\<lambda>r. revision_id r \<noteq> l) rs)"
  by (simp add: get_recent_revisions_def walk_revisions_takeWhile)

lemma get_recent_revisions_None [simp]: "get_recent_revisions rs None = rev rs"
  by (simp add: get_recent_revisions_def)

lemma commit_of_identity:
  "author_name (commit_of env r) = (if py_truthy (revision_by r) then the (revision_by r) else ''[deleted]'') \<and>
   committer_name (commit_of env r) = author_name (commit_of env r) \<and>
   committer_email (commit_of env r) = author_email (commit_of env r) \<and>
   author_email (commit_of env r) =
     (if py_truthy (config_email env) then the (config_email env)
      else py_format (revision_by r) @ ''@'' @ display_name env @ ''.reddit'')"
  by (simp add: commit_of_def Let_def)

lemma get_last_saved_revision_missing_file:
  "files w file_path = None \<Longrightarrow> get_last_saved_revision env file_path w = Inr None"
  by (simp add: get_last_saved_revision_def)

lemma get_last_saved_revision_bad_token:
  assumes "no_space p" "p \<noteq> []" "files w p \<noteq> None" "last_touching p (commits w) = Some c"
    and "py_split (message c) \<noteq> []" "uuid_UUID (last (py_split (message c))) = Inl e"
  shows "get_last_saved_revision env p w = Inr None"
proof -
  from assms(6) have "e = ValueError" by (rule uuid_UUID_error)
  with assms show ?thesis
    by (simp add: get_last_saved_revision_path parse_tokens_def py_last_def)
qed

subsection \<open>Selection and loops\<close>

lemma for_each_filter:
  assumes "\<And>x w. body x w = (if P x then body' x w else Inr w)"
  shows "for_each body xs w = for_each body' (filter P xs) w"
proof (induction xs arbitrary: w)
  case Nil
  show ?case by simp
next
  case (Cons x xs)
  show ?case
  proof (cases "P x")
    case True
    then show ?thesis using assms [of x w] Cons.IH by (simp split: sum.splits)
  next
    case False
    then show ?thesis using assms [of x w] Cons.IH by simp
  qed
qed

lemma for_each_map: "for_each (\<lambda>x. body (f x)) xs w = for_each body (map f xs) w"
  by (induction xs arbitrary: w) (auto split: sum.splits)

lemma for_each_single: "for_each body [x] w = body x w"
  by (simp split: sum.splits)

lemma ignored_iff:
  "(py_truthy ignore_list \<and> page \<in> set (the ignore_list))
     = (page \<in> set (case ignore_list of None \<Rightarrow> [] | Some l \<Rightarrow> l))"
  by (cases ignore_list) (auto simp: py_truthy_def)

lemma handle_full_page_selected:
  "handle_full_page env page ignore_list include_mod include_unlisted w =
     (if selected env None ignore_list include_mod include_unlisted page
      then handle_full_page env page None True True w else Inr w)"
  by (cases ignore_list) (auto simp: handle_full_page_def selected_def py_truthy_def)

lemma handle_recent_entry_selected:
  "handle_recent_entry env page_list ignore_list include_mod include_unlisted entry w =
     (if selected env page_list ignore_list include_mod include_unlisted (fst entry)
      then handle_revisions_for_page env (snd entry) w else Inr w)"
  by (cases ignore_list) (auto simp: handle_recent_entry_def selected_def py_truthy_def Let_def)

lemma selected_ignore_default:
  "selected env page_list (case ignore_list of None \<Rightarrow> Some [] | Some l \<Rightarrow> Some l) im iu page
     = selected env page_list ignore_list im iu page"
  by (cases ignore_list) (simp_all add: selected_def)

lemma main_selection:
  "main env page_list ignore_list include_full include_mod include_unlisted w =
     (if include_full
      then for_each (\<lambda>page. handle_full_page env page None True True)
             (filter (selected env page_list ignore_list include_mod include_unlisted)
                (if py_truthy page_list then the page_list else wiki_pages env)) w
      else for_each (handle_revisions_for_page env)
             (map snd (filter (\<lambda>entry. selected env page_list ignore_list include_mod
                                   include_unlisted (fst entry))
                (revisions_by_page (rev (wiki_revisions env))))) w)"
proof -
  define il where "il = (case ignore_list of None \<Rightarrow> Some [] | Some l \<Rightarrow> Some l)"
  have il: "selected env pl il include_mod include_unlisted x
      = selected env pl ignore_list include_mod include_unlisted x" for pl x
    by (simp add: il_def selected_ignore_default)
  have full_step: "handle_full_page env x il include_mod include_unlisted v =
      (if selected env None ignore_list include_mod include_unlisted x
       then handle_full_page env x None True True v else Inr v)" for x v
    using handle_full_page_selected [of env x il include_mod include_unlisted v]
    by (simp only: il)
  have full: "for_each (\<lambda>page. handle_full_page env page il include_mod include_unlisted) ps w
      = for_each (\<lambda>page. handle_full_page env page None True True)
          (filter (selected env None ignore_list include_mod include_unlisted) ps) w" for ps
    by (rule for_each_filter) (rule full_step)
  have recent_step: "handle_recent_entry env page_list il include_mod include_unlisted e v =
      (if selected env page_list ignore_list include_mod include_unlisted (fst e)
       then handle_revisions_for_page env (snd e) v else Inr v)" for e v
    using handle_recent_entry_selected [of env page_list il include_mod include_unlisted e v]
    by (simp only: il)
  have sel_all: "filter (selected env None ignore_list include_mod include_unlisted) ps
      = filter (selected env page_list ignore_list include_mod include_unlisted) ps"
    if "\<not> py_truthy page_list \<or> set ps \<subseteq> set (the page_list)" for ps
    using that by (intro filter_cong) (auto simp: selected_def py_truthy_def)
  have recent: "for_each (handle_recent_entry env page_list il include_mod include_unlisted) es w
      = for_each (handle_revisions_for_page env)
          (map snd (filter (\<lambda>entry. selected env page_list ignore_list include_mod
              include_unlisted (fst entry)) es)) w" for es
  proof -
    have "for_each (handle_recent_entry env page_list il include_mod include_unlisted) es w
      = for_each (\<lambda>entry. handle_revisions_for_page env (snd entry))
          (filter (\<lambda>entry. selected env page_list ignore_list include_mod
              include_unlisted (fst entry)) es) w"
      by (rule for_each_filter) (rule recent_step)
    then show ?thesis by (simp add: for_each_map)
  qed
  show ?thesis
  proof (cases include_full)
    case False
    then show ?thesis
      unfolding main_def il_def [symmetric] Let_def using recent by simp
  next
    case True
    show ?thesis
    proof (cases "py_truthy page_list")
      case True
      with \<open>include_full\<close> show ?thesis
        unfolding main_def il_def [symmetric] Let_def using full sel_all by simp
    next
      case False
      with \<open>include_full\<close> show ?thesis
        unfolding main_def il_def [symmetric] Let_def using full sel_all by simp
    qed
  qed
qed

lemma revisions_after_None:
  "\<forall>r \<in> set rs. Some (revision_id r) \<noteq> c \<Longrightarrow> revisions_after rs c = None"
  by (induction rs) auto

lemma save_revision_status:
  "save_revision env r w =
     (let p = page_path env (page_name r);
          w1 = git_add p (w\<lparr>files := (files w)(p \<mapsto> content_md r)\<rparr>)
      in snd (git_commit (git_env.truncate (commit_of env r)) (commit_message_of r) w1))"
  by (simp add: save_revision_def add_commit_def commit_of_def Let_def git_env.truncate_def)

subsection \<open>Replaying the revisions of one page\<close>

lemma head_content_None: "last_touching p cs = None \<Longrightarrow> head_content cs p = None"
proof (induction cs)
  case Nil
  show ?case by simp
next
  case (Cons c cs)
  from Cons.prems have n: "p \<notin> fst ` set (changes c)" and r: "last_touching p cs = None"
    by (simp_all add: last_touching_def split: if_splits)
  from n have "map_of (changes c) p = None" by (simp add: map_of_eq_None_iff)
  with Cons.IH [OF r] show ?case by simp
qed

lemma head_content_Some: "head_content cs p = Some x \<Longrightarrow> last_touching p cs \<noteq> None"
  using head_content_None by fastforce

lemma save_revision_clean:
  assumes "staged w = []" and "token (revision_id r)"
  shows "save_revision env r w =
     (if head_content (commits w) (page_path env (page_name r)) = Some (content_md r)
      then w\<lparr>files := (files w)(page_path env (page_name r) \<mapsto> content_md r)\<rparr>
      else w\<lparr>files := (files w)(page_path env (page_name r) \<mapsto> content_md r),
             commits := commit_of env r # commits w\<rparr>)"
proof -
  from assms(2) have nb: "\<not> list_all git_isspace (commit_message_of r)"
    by (simp add: token_def commit_message_not_blank)
  have c: "(commit_of env r)\<lparr>changes := [(page_path env (page_name r), content_md r)]\<rparr>
      = commit_of env r"
    by (simp add: commit_of_def Let_def)
  show ?thesis
    unfolding save_revision_cases Let_def
    using assms(1) nb c by (cases w) (simp add: git_add_def)
qed

lemma save_revisions_page:
  assumes "staged w = []" and "\<forall>r \<in> set rs. page_name r = page \<and> token (revision_id r)"
  shows "save_revisions env rs w =
     w\<lparr>files := (if rs = [] then files w
                 else (files w)(page_path env page \<mapsto> content_md (last rs))),
       commits := rev (map (commit_of env) (kept (head_content (commits w) (page_path env page)) rs))
                    @ commits w\<rparr>"
  using assms
proof (induction rs arbitrary: w)
  case Nil
  show ?case by simp
next
  case (Cons r rs)
  define p where "p = page_path env page"
  define w' where "w' = save_revision env r w"
  from Cons.prems have r: "page_name r = page" "token (revision_id r)"
    and rs: "\<forall>r \<in> set rs. page_name r = page \<and> token (revision_id r)" by simp_all
  note sc = save_revision_clean [OF Cons.prems(1) r(2), of env, unfolded r(1) p_def [symmetric]]
  have st: "staged w' = []" using sc Cons.prems(1) by (simp add: w'_def split: if_splits)
  have hd': "head_content (commits w') p = Some (content_md r)"
    using sc by (simp add: w'_def commit_of_def Let_def r(1) p_def split: if_splits)
  have fl: "files w' = (files w)(p \<mapsto> content_md r)"
    using sc by (simp add: w'_def split: if_splits)
  note ih = Cons.IH [OF st rs, unfolded p_def [symmetric] hd' fl]
  show ?case
  proof (cases "head_content (commits w) p = Some (content_md r)")
    case True
    with sc have "w' = w\<lparr>files := (files w)(p \<mapsto> content_md r)\<rparr>" by (simp add: w'_def)
    with ih True show ?thesis
      unfolding p_def [symmetric] by (cases "rs = []") (simp_all add: w'_def [symmetric] fun_upd_def cong: if_cong)
  next
    case False
    with sc have "w' = w\<lparr>files := (files w)(p \<mapsto> content_md r),
        commits := commit_of env r # commits w\<rparr>" by (simp add: w'_def)
    with ih False show ?thesis
      unfolding p_def [symmetric] by (cases "rs = []") (simp_all add: w'_def [symmetric] fun_upd_def cong: if_cong)
  qed
qed

lemma kept_all:
  "distinct_adj (map content_md rs) \<Longrightarrow> (rs \<noteq> [] \<longrightarrow> h \<noteq> Some (content_md (hd rs)))
     \<Longrightarrow> kept h rs = rs"
proof (induction rs arbitrary: h)
  case Nil
  show ?case by simp
next
  case (Cons r rs)
  then show ?case by (cases rs) auto
qed


lemma commit_of_token:
  "token (revision_id r) \<Longrightarrow> last (py_split (message (commit_of env r))) = revision_id r"
  using py_split_commit_message [of r] by (simp add: token_def commit_of_def Let_def)

lemma commit_of_dates:
  "author_date (commit_of env r) = revision_date r \<and> committer_date (commit_of env r) = revision_date r"
  by (simp add: commit_of_def Let_def)

subsection \<open>A second run changes nothing\<close>

lemma page_path_inj: "page_path env p = page_path env q \<Longrightarrow> p = q"
  by (simp add: page_path_def)

lemma page_path_token:
  assumes "no_space (display_name env)" "no_space p"
  shows "no_space (page_path env p)" "page_path env p \<noteq> []"
  using assms by (simp_all add: page_path_def no_space_def py_isspace_def)

lemma kept_Nil_iff: "kept h rs = [] \<longleftrightarrow> (\<forall>r \<in> set rs. h = Some (content_md r))"
  by (induction rs arbitrary: h) auto

lemma kept_subset: "set (kept h rs) \<subseteq> set rs"
  by (induction rs arbitrary: h) auto

lemma kept_last_split:
  "kept h rs \<noteq> [] \<Longrightarrow>
     \<exists>a b. rs = a @ last (kept h rs) # b \<and> (\<forall>r \<in> set b. content_md r = content_md (last (kept h rs)))"
proof (induction rs arbitrary: h)
  case Nil
  then show ?case by simp
next
  case (Cons r rs)
  show ?case
  proof (cases "h = Some (content_md r)")
    case True
    with Cons.prems have ne: "kept h rs \<noteq> []" by simp
    from Cons.IH [OF ne] obtain a b where
      "rs = a @ last (kept h rs) # b" "\<forall>x \<in> set b. content_md x = content_md (last (kept h rs))"
      by blast
    then have "r # rs = (r # a) @ last (kept h rs) # b \<and>
        (\<forall>x \<in> set b. content_md x = content_md (last (kept h rs)))" by simp
    with True show ?thesis by (metis kept.simps(2))
  next
    case False
    show ?thesis
    proof (cases "kept (Some (content_md r)) rs = []")
      case True
      then have "\<forall>x \<in> set rs. content_md x = content_md r"
        by (auto simp: kept_Nil_iff)
      with False True show ?thesis by (intro exI [of _ "[]"] exI [of _ rs]) simp
    next
      case ne: False
      from Cons.IH [OF ne] obtain a b where
        "rs = a @ last (kept (Some (content_md r)) rs) # b"
        "\<forall>x \<in> set b. content_md x = content_md (last (kept (Some (content_md r)) rs))"
        by blast
      then have "r # rs = (r # a) @ last (kept (Some (content_md r)) rs) # b \<and>
        (\<forall>x \<in> set b. content_md x = content_md (last (kept (Some (content_md r)) rs)))" by simp
      moreover from False ne have "last (kept h (r # rs)) = last (kept (Some (content_md r)) rs)"
        by simp
      ultimately show ?thesis by metis
    qed
  qed
qed

lemma last_touching_append_other:
  "\<forall>c \<in> set new. p \<notin> fst ` set (changes c) \<Longrightarrow> last_touching p (new @ cs) = last_touching p cs"
  by (induction new) (auto simp: last_touching_def)

lemma head_content_append_other:
  "\<forall>c \<in> set new. p \<notin> fst ` set (changes c) \<Longrightarrow> head_content (new @ cs) p = head_content cs p"
proof (induction new)
  case Nil
  show ?case by simp
next
  case (Cons c new)
  then have "map_of (changes c) p = None" by (simp add: map_of_eq_None_iff)
  with Cons show ?case by simp
qed

lemma changes_commit_of [simp]:
  "changes (commit_of env r) = [(page_path env (page_name r), content_md r)]"
  by (simp add: commit_of_def Let_def)

lemma message_commit_of [simp]: "message (commit_of env r) = commit_message_of r"
  by (simp add: commit_of_def Let_def)

lemma canonical_token: "canonical_uuid s \<Longrightarrow> token s"
  using canonical_uuid_token [of s] by (simp add: token_def)

lemma get_recent_revisions_subset: "set (get_recent_revisions rs c) \<subseteq> set rs"
  by (cases c) (auto simp: get_recent_revisions_Some dest: set_takeWhileD)

lemma well_formed_pageD:
  assumes "well_formed_page env page" "r \<in> set (page_revisions env page)"
  shows "page_name r = page" "canonical_uuid (revision_id r)" "token (revision_id r)"
  using assms canonical_token by (auto simp: well_formed_page_def list_all_iff)

lemma sync_page_char:
  assumes "staged w = []" "well_formed_page env page"
  shows "handle_full_page env page None True True w =
     (case get_last_saved_revision env (page_path env page) w of
        Inl e \<Rightarrow> Inl e
      | Inr c \<Rightarrow>
          Inr (w\<lparr>files := (if get_recent_revisions (page_revisions env page) c = [] then files w
                           else (files w)(page_path env page \<mapsto>
                                  content_md (last (get_recent_revisions (page_revisions env page) c)))),
                 commits := rev (map (commit_of env)
                     (kept (head_content (commits w) (page_path env page))
                        (get_recent_revisions (page_revisions env page) c))) @ commits w\<rparr>))"
proof (cases "get_last_saved_revision env (page_path env page) w")
  case (Inl e)
  then show ?thesis by (simp add: handle_full_page_def py_truthy_def)
next
  case (Inr c)
  have own: "\<forall>r \<in> set (get_recent_revisions (page_revisions env page) c).
      page_name r = page \<and> token (revision_id r)"
    using well_formed_pageD [OF assms(2)] get_recent_revisions_subset by blast
  show ?thesis
    using Inr by (simp add: handle_full_page_def py_truthy_def save_revisions_page [OF assms(1) own])
qed

lemma world_fixpoint:
  "(w\<lparr>files := F, commits := K @ commits w\<rparr> = w) \<longleftrightarrow> (F = files w \<and> K = [])"
  by (cases w) auto

lemma settled_iff:
  assumes "staged w = []" "well_formed_page env page"
  shows "settled env page w \<longleftrightarrow>
     (\<exists>c. get_last_saved_revision env (page_path env page) w = Inr c \<and>
          kept (head_content (commits w) (page_path env page))
            (get_recent_revisions (page_revisions env page) c) = [] \<and>
          (get_recent_revisions (page_revisions env page) c \<noteq> [] \<longrightarrow>
             files w (page_path env page)
               = Some (content_md (last (get_recent_revisions (page_revisions env page) c)))))"
proof -
  have upd: "((files w)(p \<mapsto> x) = files w) \<longleftrightarrow> files w p = Some x" for p x
    by (metis fun_upd_idem_iff)
  show ?thesis
    unfolding settled_def sync_page_char [OF assms]
    by (cases "get_last_saved_revision env (page_path env page) w")
      (auto simp: world_fixpoint upd)
qed

lemma get_recent_revisions_prefix:
  "\<exists>rest. rs = rev (get_recent_revisions rs c) @ rest"
proof (cases c)
  case None
  then show ?thesis by simp
next
  case (Some l)
  have "rs = takeWhile (\<lambda>r. revision_id r \<noteq> l) rs @ dropWhile (\<lambda>r. revision_id r \<noteq> l) rs"
    by simp
  with Some show ?thesis by (simp add: get_recent_revisions_Some) (metis takeWhile_dropWhile_id)
qed

lemma takeWhile_stop:
  "\<forall>x \<in> set xs. P x \<Longrightarrow> \<not> P y \<Longrightarrow> takeWhile P (xs @ y # ys) = xs"
  by (induction xs) auto

lemma cursor_of_new_commit:
  assumes path: "no_space p" "p \<noteq> []"
    and present: "files w p \<noteq> None"
    and top: "commits w = commit_of env r # cs"
    and r: "page_path env (page_name r) = p" "canonical_uuid (revision_id r)"
  shows "get_last_saved_revision env p w = Inr (Some (revision_id r))"
proof -
  have lt: "last_touching p (commits w) = Some (commit_of env r)"
    using top r(1) by (simp add: last_touching_def)
  from py_split_commit_message [of r] canonical_uuid_token [OF r(2)]
  have m: "py_split (commit_message_of r) \<noteq> []"
    "last (py_split (commit_message_of r)) = revision_id r" by simp_all
  then have "parse_tokens (py_split (log_header env (commit_of env r)) @ py_split (commit_message_of r))
      = Inr (Some (revision_id r))"
    using parse_tokens_canonical [of "py_split (log_header env (commit_of env r)) @ py_split (commit_message_of r)"]
      r(2) by simp
  with lt present show ?thesis
    by (simp add: get_last_saved_revision_path [OF path])
qed

lemma settle:
  assumes G: "no_space (display_name env)"
    and Hd: "\<forall>c. py_split (log_header env c) \<noteq> []"
    and clean: "staged w = []"
    and wf: "well_formed_page env page"
    and run: "handle_full_page env page None True True w = Inr w'"
  shows "settled env page w' \<and> staged w' = []"
proof -
  define p where "p = page_path env page"
  define H where "H = page_revisions env page"
  have path: "no_space p" "p \<noteq> []"
    using page_path_token [OF G, of page] wf by (simp_all add: p_def well_formed_page_def)
  from run obtain c where c: "get_last_saved_revision env p w = Inr c"
    unfolding sync_page_char [OF clean wf] p_def by (auto split: sum.splits)
  define L where "L = get_recent_revisions H c"
  define h where "h = head_content (commits w) p"
  define K where "K = kept h L"
  from run c have w': "w' = w\<lparr>files := (if L = [] then files w else (files w)(p \<mapsto> content_md (last L))),
      commits := rev (map (commit_of env) K) @ commits w\<rparr>"
    unfolding sync_page_char [OF clean wf] p_def [symmetric] H_def [symmetric]
    by (auto simp: L_def K_def h_def)
  have st: "staged w' = []" using clean by (simp add: w')
  have own: "r \<in> set H \<Longrightarrow> page_name r = page \<and> canonical_uuid (revision_id r)" for r
    using well_formed_pageD [OF wf] by (simp add: H_def)
  have LH: "set L \<subseteq> set H" by (simp add: L_def get_recent_revisions_subset)
  have crit: "settled env page w' \<longleftrightarrow>
     (\<exists>c'. get_last_saved_revision env p w' = Inr c' \<and>
          kept (head_content (commits w') p) (get_recent_revisions H c') = [] \<and>
          (get_recent_revisions H c' \<noteq> [] \<longrightarrow>
             files w' p = Some (content_md (last (get_recent_revisions H c')))))"
    using settled_iff [OF st wf] by (simp add: p_def H_def)
  have "settled env page w'"
  proof (cases "L = []")
    case True
    then have "K = []" by (simp add: K_def)
    with True w' have "w' = w" by simp
    then show ?thesis using run by (simp add: settled_def)
  next
    case Lne: False
    show ?thesis
    proof (cases "K = []")
      case True
      then have all: "\<forall>r \<in> set L. h = Some (content_md r)"
        by (simp add: K_def kept_Nil_iff)
      from True w' Lne have cw: "commits w' = commits w"
        and fw: "files w' = (files w)(p \<mapsto> content_md (last L))" by simp_all
      from all Lne have hx: "h = Some (content_md (last L))" by simp
      then obtain c0 where c0: "last_touching p (commits w) = Some c0"
        using head_content_Some [of "commits w" p] by (auto simp: h_def)
      have "py_split (log_header env c0) @ py_split (message c0) \<noteq> []" using Hd by simp
      then obtain c' where c': "parse_tokens (py_split (log_header env c0) @ py_split (message c0)) = Inr c'"
        using parse_tokens_cases [of "py_split (log_header env c0) @ py_split (message c0)"] by auto
      have cur': "get_last_saved_revision env p w' = Inr c'"
        using c0 c' by (simp add: get_last_saved_revision_path [OF path] cw fw)
      have sub: "set (get_recent_revisions H c') \<subseteq> set L"
      proof (cases "files w p = None")
        case True
        then have "c = None" using c by (simp add: get_last_saved_revision_def)
        then have "set L = set H" by (simp add: L_def)
        then show ?thesis by (simp add: get_recent_revisions_subset)
      next
        case False
        then obtain y where "files w p = Some y" by auto
        then have "get_last_saved_revision env p w = Inr c'"
          by (simp add: get_last_saved_revision_path [OF path] c0 c')
        with c have "c' = c" by simp
        then show ?thesis by (simp add: L_def)
      qed
      have k': "kept (head_content (commits w') p) (get_recent_revisions H c') = []"
        using sub all by (auto simp: kept_Nil_iff cw h_def [symmetric])
      have f': "files w' p = Some (content_md (last (get_recent_revisions H c')))"
        if "get_recent_revisions H c' \<noteq> []"
      proof -
        from that have "last (get_recent_revisions H c') \<in> set L" using sub by auto
        with all hx show ?thesis by (auto simp: fw)
      qed
      from cur' k' f' show ?thesis unfolding crit by blast
    next
      case Kne: False
      define rk where "rk = last K"
      from kept_last_split [of h L] Kne obtain a b where
        ab: "L = a @ rk # b" "\<forall>r \<in> set b. content_md r = content_md rk"
        by (auto simp: K_def rk_def)
      have rkH: "rk \<in> set H" using ab(1) LH by auto
      from own [OF rkH] have rk: "page_path env (page_name rk) = p" "canonical_uuid (revision_id rk)"
        by (simp_all add: p_def)
      define K0 where "K0 = butlast K"
      have KK: "K = K0 @ [rk]" using Kne by (simp add: rk_def K0_def)
      have top: "commits w' = commit_of env rk # (rev (map (commit_of env) K0) @ commits w)"
        unfolding w' KK by simp
      have fw: "files w' p = Some (content_md (last L))" using Lne by (simp add: w')
      have cur': "get_last_saved_revision env p w' = Inr (Some (revision_id rk))"
        using cursor_of_new_commit [OF path _ top rk] fw by simp
      from get_recent_revisions_prefix [of H c] obtain rest where
        Hs: "H = rev b @ rk # (rev a @ rest)" by (auto simp: L_def [symmetric] ab(1))
      have dist: "distinct (map revision_id H)" using wf by (simp add: well_formed_page_def H_def)
      have "revision_id rk \<notin> revision_id ` set b"
        using dist unfolding Hs by simp
      then have nb: "\<forall>x \<in> set (rev b). revision_id x \<noteq> revision_id rk"
        by (metis image_eqI set_rev)
      have L': "get_recent_revisions H (Some (revision_id rk)) = b"
      proof -
        have "takeWhile (\<lambda>r. revision_id r \<noteq> revision_id rk) H = rev b"
          unfolding Hs using nb by (intro takeWhile_stop) auto
        then show ?thesis by (simp add: get_recent_revisions_Some)
      qed
      have hd': "head_content (commits w') p = Some (content_md rk)"
        using rk(1) by (simp add: top)
      have k': "kept (head_content (commits w') p) b = []"
        using ab(2) by (simp add: hd' kept_Nil_iff)
      have f': "files w' p = Some (content_md (last b))" if "b \<noteq> []"
        using that fw by (simp add: ab(1))
      from cur' k' f' L' show ?thesis unfolding crit by auto
    qed
  qed
  with st show ?thesis by simp
qed

lemma frame:
  assumes G: "no_space (display_name env)"
    and clean: "staged w = []"
    and wfp: "well_formed_page env p" and wfq: "well_formed_page env q"
    and ne: "p \<noteq> q"
    and sp: "settled env p w"
    and run: "handle_full_page env q None True True w = Inr w'"
  shows "settled env p w'"
proof -
  define pp where "pp = page_path env p"
  define pq where "pq = page_path env q"
  have path: "no_space pp" "pp \<noteq> []"
    using page_path_token [OF G, of p] wfp by (simp_all add: pp_def well_formed_page_def)
  have npq: "pp \<noteq> pq" using ne page_path_inj by (auto simp: pp_def pq_def)
  from run obtain c where c: "get_last_saved_revision env pq w = Inr c"
    unfolding sync_page_char [OF clean wfq] pq_def by (auto split: sum.splits)
  define L where "L = get_recent_revisions (page_revisions env q) c"
  define K where "K = kept (head_content (commits w) pq) L"
  from run c have w': "w' = w\<lparr>files := (if L = [] then files w else (files w)(pq \<mapsto> content_md (last L))),
      commits := rev (map (commit_of env) K) @ commits w\<rparr>"
    unfolding sync_page_char [OF clean wfq] pq_def [symmetric]
    by (auto simp: L_def K_def)
  have st: "staged w' = []" using clean by (simp add: w')
  have fl: "files w' pp = files w pp" using npq by (simp add: w')
  have "set K \<subseteq> set (page_revisions env q)"
    using kept_subset get_recent_revisions_subset unfolding K_def L_def by blast
  then have "\<forall>r \<in> set K. page_name r = q"
    using well_formed_pageD(1) [OF wfq] by blast
  then have other: "\<forall>x \<in> set (rev (map (commit_of env) K)). pp \<notin> fst ` set (changes x)"
    using npq by (auto simp: pq_def)
  have lt: "last_touching pp (commits w') = last_touching pp (commits w)"
    using last_touching_append_other [OF other] by (simp add: w')
  have hc: "head_content (commits w') pp = head_content (commits w) pp"
    using head_content_append_other [OF other] by (simp add: w')
  have cur: "get_last_saved_revision env pp w' = get_last_saved_revision env pp w"
    by (simp add: get_last_saved_revision_path [OF path] fl lt)
  from sp show ?thesis
    unfolding settled_iff [OF clean wfp] settled_iff [OF st wfp] pp_def [symmetric]
    by (simp add: cur hc fl)
qed

lemma revisions_after_Some:
  "revisions_after rs c = Some tail \<Longrightarrow>
     \<exists>a x. rs = a @ x # tail \<and> c = Some (revision_id x)"
proof (induction rs)
  case Nil
  then show ?case by simp
next
  case (Cons r rs)
  show ?case
  proof (cases "Some (revision_id r) = c")
    case True
    with Cons.prems have "r # rs = [] @ r # tail \<and> c = Some (revision_id r)" by auto
    then show ?thesis by blast
  next
    case False
    with Cons.prems have "revisions_after rs c = Some tail" by simp
    from Cons.IH [OF this] obtain a x where "rs = a @ x # tail" "c = Some (revision_id x)" by blast
    then have "r # rs = (r # a) @ x # tail \<and> c = Some (revision_id x)" by simp
    then show ?thesis by blast
  qed
qed

lemma recent_is_full:
  assumes wf: "well_formed_page env page"
    and wc: "window_consistent env page"
    and revs: "revs = rev (filter (\<lambda>r. page_name r = page) (wiki_revisions env))"
    and ne: "revs \<noteq> []"
  shows "handle_revisions_for_page env revs w = handle_full_page env page None True True w"
proof -
  define H where "H = page_revisions env page"
  from ne have "hd revs \<in> set revs" by simp
  then have pg: "page_name (hd revs) = page" unfolding revs by simp
  show ?thesis
  proof (cases "get_last_saved_revision env (page_path env page) w")
    case (Inl e)
    then show ?thesis
      using ne pg by (simp add: handle_revisions_for_page_def handle_full_page_def py_truthy_def Let_def)
  next
    case (Inr c)
    show ?thesis
    proof (cases "revisions_after revs c")
      case None
      then show ?thesis
        using ne pg Inr by (simp add: handle_revisions_for_page_def Let_def)
    next
      case (Some tail)
      from revisions_after_Some [OF Some] obtain a x where
        ax: "revs = a @ x # tail" "c = Some (revision_id x)" by blast
      from wc obtain rest where "H = rev revs @ rest"
        unfolding window_consistent_def revs H_def by (auto simp: prefix_def)
      then have Hs: "H = rev tail @ x # (rev a @ rest)" by (simp add: ax(1))
      have dist: "distinct (map revision_id H)" using wf by (simp add: well_formed_page_def H_def)
      have "revision_id x \<notin> revision_id ` set tail"
        using dist unfolding Hs by simp
      then have nb: "\<forall>y \<in> set (rev tail). revision_id y \<noteq> revision_id x"
        by (metis image_eqI set_rev)
      have "takeWhile (\<lambda>r. revision_id r \<noteq> revision_id x) H = rev tail"
        unfolding Hs using nb by (intro takeWhile_stop) auto
      then have "get_recent_revisions H c = tail"
        by (simp add: get_recent_revisions_Some ax(2))
      then show ?thesis
        using ne pg Inr Some
        by (simp add: handle_revisions_for_page_def handle_full_page_def py_truthy_def Let_def H_def)
    qed
  qed
qed

lemma map_of_append_revision:
  "map_of (append_revision r d) =
     (map_of d)(page_name r \<mapsto> (case map_of d (page_name r) of None \<Rightarrow> [r] | Some v \<Rightarrow> v @ [r]))"
  by (induction r d rule: append_revision.induct) (auto simp: fun_eq_iff)

lemma keys_append_revision:
  "map fst (append_revision r d) =
     (if page_name r \<in> set (map fst d) then map fst d else map fst d @ [page_name r])"
  by (induction r d rule: append_revision.induct) auto

lemma revisions_by_page_snoc:
  "revisions_by_page (rs @ [r]) = append_revision r (revisions_by_page rs)"
  by (simp add: revisions_by_page_def)

lemma revisions_by_page_inv:
  "distinct (map fst (revisions_by_page rs)) \<and>
   (\<forall>k. map_of (revisions_by_page rs) k =
      (if filter (\<lambda>r. page_name r = k) rs = [] then None
       else Some (filter (\<lambda>r. page_name r = k) rs)))"
proof (induction rs rule: rev_induct)
  case Nil
  show ?case by (simp add: revisions_by_page_def)
next
  case (snoc r rs)
  define d where "d = revisions_by_page rs"
  from snoc have dd: "distinct (map fst d)"
    and mo: "\<And>k. map_of d k = (if filter (\<lambda>r. page_name r = k) rs = [] then None
       else Some (filter (\<lambda>r. page_name r = k) rs))"
    by (simp_all add: d_def)
  have "distinct (map fst (append_revision r d))"
    using dd by (simp add: keys_append_revision)
  moreover have "map_of (append_revision r d) k =
      (if filter (\<lambda>x. page_name x = k) (rs @ [r]) = [] then None
       else Some (filter (\<lambda>x. page_name x = k) (rs @ [r])))" for k
    by (simp add: map_of_append_revision mo)
  ultimately show ?case
    by (simp add: revisions_by_page_snoc d_def [symmetric])
qed

lemma revisions_by_page_entry:
  assumes "e \<in> set (revisions_by_page rs)"
  shows "snd e = filter (\<lambda>r. page_name r = fst e) rs \<and> snd e \<noteq> []"
proof -
  from revisions_by_page_inv [of rs] assms have "map_of (revisions_by_page rs) (fst e) = Some (snd e)"
    by (metis map_of_eq_Some_iff prod.collapse)
  with revisions_by_page_inv [of rs] show ?thesis
    by (metis option.distinct(1) option.inject)
qed

lemma for_each_cong_list:
  "\<forall>x \<in> set xs. \<forall>v. f x v = g x v \<Longrightarrow> for_each f xs w = for_each g xs w"
  by (induction xs arbitrary: w) (auto split: sum.splits)

lemma for_each_fix: "\<forall>x \<in> set xs. f x w = Inr w \<Longrightarrow> for_each f xs w = Inr w"
  by (induction xs) auto

lemma main_as_sync:
  assumes wfc: "\<forall>p \<in> set (candidates env page_list include_full). well_formed_page env p"
    and wcc: "\<not> include_full \<longrightarrow>
        (\<forall>p \<in> set (candidates env page_list include_full). window_consistent env p)"
  shows "main env page_list ignore_list include_full include_mod include_unlisted w =
     for_each (\<lambda>p. handle_full_page env p None True True)
       (filter (selected env page_list ignore_list include_mod include_unlisted)
          (candidates env page_list include_full)) w"
proof (cases include_full)
  case True
  then show ?thesis
    by (simp add: main_selection candidates_def)
next
  case False
  define es where "es = revisions_by_page (rev (wiki_revisions env))"
  define sel where "sel = selected env page_list ignore_list include_mod include_unlisted"
  have cand: "candidates env page_list include_full = map fst es"
    using False by (simp add: candidates_def es_def)
  have eq: "\<forall>e \<in> set (filter (\<lambda>e. sel (fst e)) es). \<forall>v.
      handle_revisions_for_page env (snd e) v = handle_full_page env (fst e) None True True v"
  proof (intro ballI allI)
    fix e v
    assume "e \<in> set (filter (\<lambda>e. sel (fst e)) es)"
    then have e: "e \<in> set es" by simp
    then have c: "fst e \<in> set (candidates env page_list include_full)" by (simp add: cand)
    note en = revisions_by_page_entry [OF e [unfolded es_def]]
    from en have s1: "snd e = rev (filter (\<lambda>r. page_name r = fst e) (wiki_revisions env))"
      by (simp add: rev_filter)
    from en have s2: "snd e \<noteq> []" by blast
    note s = s1 s2
    from c wfc wcc False have "well_formed_page env (fst e)" "window_consistent env (fst e)"
      by blast+
    then show "handle_revisions_for_page env (snd e) v = handle_full_page env (fst e) None True True v"
      using s by (rule recent_is_full)
  qed
  have "main env page_list ignore_list include_full include_mod include_unlisted w
      = for_each (handle_revisions_for_page env) (map snd (filter (\<lambda>e. sel (fst e)) es)) w"
    using False by (simp add: main_selection es_def sel_def)
  also have "\<dots> = for_each (\<lambda>e. handle_revisions_for_page env (snd e)) (filter (\<lambda>e. sel (fst e)) es) w"
    by (simp add: for_each_map)
  also have "\<dots> = for_each (\<lambda>e. handle_full_page env (fst e) None True True) (filter (\<lambda>e. sel (fst e)) es) w"
    using eq by (rule for_each_cong_list)
  also have "\<dots> = for_each (\<lambda>p. handle_full_page env p None True True)
      (map fst (filter (\<lambda>e. sel (fst e)) es)) w"
    by (rule for_each_map [of "\<lambda>p. handle_full_page env p None True True" fst])
  also have "map fst (filter (\<lambda>e. sel (fst e)) es) = filter sel (map fst es)"
    by (simp add: filter_map comp_def)
  finally show ?thesis by (simp add: cand sel_def)
qed

lemma run_settles:
  assumes G: "no_space (display_name env)"
    and Hd: "\<forall>c. py_split (log_header env c) \<noteq> []"
  shows "\<forall>p \<in> set ps. well_formed_page env p \<Longrightarrow> staged w = [] \<Longrightarrow>
     \<forall>p \<in> S. well_formed_page env p \<and> settled env p w \<Longrightarrow>
     for_each (\<lambda>p. handle_full_page env p None True True) ps w = Inr w1 \<Longrightarrow>
     staged w1 = [] \<and> (\<forall>p \<in> S \<union> set ps. settled env p w1)"
proof (induction ps arbitrary: w S)
  case Nil
  then show ?case by simp
next
  case (Cons q ps)
  from Cons.prems(4) obtain w' where
    q: "handle_full_page env q None True True w = Inr w'"
    and rest: "for_each (\<lambda>p. handle_full_page env p None True True) ps w' = Inr w1"
    by (auto split: sum.splits)
  from Cons.prems(1) have wfq: "well_formed_page env q" and wfps: "\<forall>p \<in> set ps. well_formed_page env p"
    by simp_all
  from settle [OF G Hd Cons.prems(2) wfq q] have sq: "settled env q w'" and st: "staged w' = []"
    by simp_all
  have S': "\<forall>p \<in> insert q S. well_formed_page env p \<and> settled env p w'"
  proof
    fix p assume p: "p \<in> insert q S"
    show "well_formed_page env p \<and> settled env p w'"
    proof (cases "p = q")
      case True
      with wfq sq show ?thesis by simp
    next
      case False
      with p Cons.prems(3) have "well_formed_page env p" "settled env p w" by auto
      with frame [OF G Cons.prems(2) _ wfq False _ q] show ?thesis by blast
    qed
  qed
  from Cons.IH [OF wfps st S' rest] show ?case by auto
qed

lemma example_header_tokens: "py_split (example_header c) \<noteq> []"
proof -
  have "py_split (''commit'' @ CHR '' '' #
      (''0000000000000000000000000000000000000000'' @ [nl] @
       ''Author: '' @ author_name c @ '' <'' @ author_email c @ ''>'' @ [nl] @
       ''Date:   Thu Jan 1 00:00:00 1970 +0000'' @ [nl]))
    = py_split ''commit'' @ py_split
      (''0000000000000000000000000000000000000000'' @ [nl] @
       ''Author: '' @ author_name c @ '' <'' @ author_email c @ ''>'' @ [nl] @
       ''Date:   Thu Jan 1 00:00:00 1970 +0000'' @ [nl])"
    by (rule py_split_append_space) simp
  moreover have "py_split ''commit'' = [''commit'']" by code_simp
  ultimately show ?thesis by (simp add: example_header_def)
qed

lemma window_diff:
  assumes wf: "well_formed_page env page"
    and wc: "window_consistent env page"
    and revs: "revs = rev (filter (\<lambda>r. page_name r = page) (wiki_revisions env))"
    and after: "revisions_after revs c = Some tail"
  shows "tail = get_recent_revisions (page_revisions env page) c"
proof -
  define H where "H = page_revisions env page"
  from revisions_after_Some [OF after] obtain a x where
    ax: "revs = a @ x # tail" "c = Some (revision_id x)" by blast
  from wc obtain rest where "H = rev revs @ rest"
    unfolding window_consistent_def revs H_def by (auto simp: prefix_def)
  then have Hs: "H = rev tail @ x # (rev a @ rest)" by (simp add: ax(1))
  have dist: "distinct (map revision_id H)" using wf by (simp add: well_formed_page_def H_def)
  have "revision_id x \<notin> revision_id ` set tail"
    using dist unfolding Hs by simp
  then have nb: "\<forall>y \<in> set (rev tail). revision_id y \<noteq> revision_id x"
    by (metis image_eqI set_rev)
  have "takeWhile (\<lambda>r. revision_id r \<noteq> revision_id x) H = rev tail"
    unfolding Hs using nb by (intro takeWhile_stop) auto
  then show ?thesis
    by (simp add: get_recent_revisions_Some ax(2) H_def)
qed

lemma get_recent_revisions_Nil_iff:
  "get_recent_revisions rs c = [] \<longleftrightarrow> rs = [] \<or> c = Some (revision_id (hd rs))"
proof (cases c)
  case None
  then show ?thesis by simp
next
  case (Some l)
  then show ?thesis
    by (auto simp: get_recent_revisions_Some takeWhile_eq_Nil_iff)
qed

lemma settled_diff:
  assumes "staged w = []" "well_formed_page env page" "settled env page w"
  shows "\<exists>c. get_last_saved_revision env (page_path env page) w = Inr c \<and>
     (\<forall>r \<in> set (get_recent_revisions (page_revisions env page) c).
        head_content (commits w) (page_path env page) = Some (content_md r) \<and>
        files w (page_path env page) = Some (content_md r))"
proof -
  from assms(3) obtain c where
    c: "get_last_saved_revision env (page_path env page) w = Inr c"
    and k: "kept (head_content (commits w) (page_path env page))
            (get_recent_revisions (page_revisions env page) c) = []"
    and f: "get_recent_revisions (page_revisions env page) c \<noteq> [] \<Longrightarrow>
             files w (page_path env page)
               = Some (content_md (last (get_recent_revisions (page_revisions env page) c)))"
    unfolding settled_iff [OF assms(1,2)] by blast
  define D where "D = get_recent_revisions (page_revisions env page) c"
  from k have all: "\<forall>r \<in> set D. head_content (commits w) (page_path env page) = Some (content_md r)"
    by (simp add: kept_Nil_iff D_def)
  have "files w (page_path env page) = Some (content_md r)" if "r \<in> set D" for r
  proof -
    from that have ne: "D \<noteq> []" by auto
    then have "last D \<in> set D" by simp
    with all have "head_content (commits w) (page_path env page) = Some (content_md (last D))"
      by blast
    moreover from all that
    have "head_content (commits w) (page_path env page) = Some (content_md r)" by blast
    ultimately have "content_md (last D) = content_md r" by simp
    with f ne show ?thesis by (simp add: D_def)
  qed
  with c all show ?thesis unfolding D_def by blast
qed

section \<open>The claims\<close>

text \<open>
  Claim C1. With no cursor the diff is the whole history reversed. With a cursor whose id
  occurs in the history, the diff is the revisions walked before the first revision carrying
  that id, reversed into oldest-first order, and the cursor's revision is not among them. On
  the empty history the diff is empty, whatever the cursor.
\<close>

theorem C1_incremental_diff:
  "get_recent_revisions revisions None = rev revisions \<and>
   (c \<in> revision_id ` set revisions \<longrightarrow>
      get_recent_revisions revisions (Some c)
        = rev (takeWhile (\<lambda>r. revision_id r \<noteq> c) revisions) \<and>
      c \<notin> revision_id ` set (get_recent_revisions revisions (Some c)) \<and>
      length (get_recent_revisions revisions (Some c)) < length revisions) \<and>
   get_recent_revisions [] cursor = []"
proof -
  have a: "c \<notin> revision_id ` set (takeWhile (\<lambda>r. revision_id r \<noteq> c) revisions)"
    by (auto dest: set_takeWhileD)
  have b: "c \<in> revision_id ` set revisions \<Longrightarrow>
      length (takeWhile (\<lambda>r. revision_id r \<noteq> c) revisions) < length revisions"
    by (induction revisions) auto
  have c: "get_recent_revisions [] cursor = []"
    by (cases cursor) (simp_all add: get_recent_revisions_def)
  from a b c show ?thesis
    by (simp add: get_recent_revisions_Some)
qed

theorem C1_incremental_diff_witness:
  "get_recent_revisions [r3, r2, r1] None = [r1, r2, r3] \<and>
   revision_id r2 \<in> revision_id ` set [r3, r2, r1] \<and>
   get_recent_revisions [r3, r2, r1] (Some (revision_id r2)) = [r3] \<and>
   revision_id r2 \<notin> revision_id ` set (get_recent_revisions [r3, r2, r1] (Some (revision_id r2))) \<and>
   get_recent_revisions [] (Some (revision_id r2)) = []"
proof -
  have h: "revision_id r2 \<in> revision_id ` set [r3, r2, r1]"
    by simp
  have n: "revision_id r3 \<noteq> revision_id r2"
    by (simp add: r2_def r3_def example_revision_def)
  from C1_incremental_diff [of "[r3, r2, r1]" "revision_id r2" "Some (revision_id r2)"] h n
  show ?thesis by simp
qed

text \<open>
  Claim C7. When \<open>save_revision\<close> adds a commit, that commit is the new head of the log;
  its message is the revision's reason, an empty line and the revision id when the reason is
  present and not empty, and the revision id alone otherwise; its author date and committer
  date are the revision's own date. When the revision id is a token (non-empty, without
  whitespace, as every UUID is), the last whitespace-delimited token of the message is the
  revision id.
\<close>

theorem C7_commit_message_and_dates:
  assumes "commits (save_revision env r w) \<noteq> commits w"
  shows "\<exists>c. commits (save_revision env r w) = c # commits w \<and>
     message c = (if reason r = None \<or> reason r = Some []
                  then revision_id r
                  else the (reason r) @ [nl, nl] @ revision_id r) \<and>
     author_date c = revision_date r \<and> committer_date c = revision_date r \<and>
     (no_space (revision_id r) \<and> revision_id r \<noteq> [] \<longrightarrow>
        py_split (message c) \<noteq> [] \<and> last (py_split (message c)) = revision_id r)"
proof -
  define p where "p = page_path env (page_name r)"
  define w1 where "w1 = git_add p (w\<lparr>files := (files w)(p \<mapsto> content_md r)\<rparr>)"
  define c where "c = (commit_of env r)\<lparr>changes := staged w1\<rparr>"
  have cw: "commits w1 = commits w" by (simp add: w1_def)
  from assms have s: "save_revision env r w = w1\<lparr>commits := c # commits w1, staged := []\<rparr>"
    unfolding save_revision_cases Let_def p_def [symmetric] w1_def [symmetric] c_def
    by (simp add: cw split: if_splits)
  have m: "message c = commit_message_of r" and d: "author_date c = revision_date r"
    "committer_date c = revision_date r"
    using head_commit_fields [where env = env and r = r and s = "staged w1"] by (simp_all add: c_def)
  have m': "commit_message_of r = (if reason r = None \<or> reason r = Some []
                  then revision_id r else the (reason r) @ [nl, nl] @ revision_id r)"
    by (auto simp: commit_message_of_def py_truthy_def split: option.splits)
  from s cw m d m' py_split_commit_message [of r] show ?thesis by simp
qed

theorem C7_commit_message_and_dates_witness:
  "commits (save_revision (example_env [r1] []) r1 empty_world) \<noteq> commits empty_world \<and>
   (\<exists>c. commits (save_revision (example_env [r1] []) r1 empty_world) = c # commits empty_world \<and>
     message c = ''first draft'' @ [nl, nl] @ ''11111111-1111-4111-8111-111111111111'' \<and>
     author_date c = 1600000000 \<and> committer_date c = 1600000000 \<and>
     last (py_split (message c)) = ''11111111-1111-4111-8111-111111111111'')"
proof -
  have h: "commits (save_revision (example_env [r1] []) r1 empty_world) \<noteq> commits empty_world"
    by code_simp
  have t: "no_space (revision_id r1) \<and> revision_id r1 \<noteq> []"
    by code_simp
  have f: "reason r1 = Some ''first draft''" "revision_id r1 = ''11111111-1111-4111-8111-111111111111''"
    "revision_date r1 = 1600000000"
    by (simp_all add: r1_def example_revision_def)
  from C7_commit_message_and_dates [OF h] t show ?thesis
    using h unfolding f by auto
qed

text \<open>
  Claim C9. For the revision \<open>r2\<close> of a deleted account, with no email configured, the
  author and committer name of the commit is the sentinel \<open>[deleted]\<close>, and the author
  and committer email is \<open>None@anime.reddit\<close>: the rendering of the missing author, not
  the sentinel. (\<open>commit_of_identity\<close> gives the identity in general; for a present author
  the email is the author's name, \<open>@\<close>, the subreddit's name and \<open>.reddit\<close>.)
\<close>

theorem C9_deleted_author_identity:
  "revision_by r2 = None \<and> config_email (example_env [r2] []) = None \<and>
   map (\<lambda>c. (author_name c, author_email c, committer_name c, committer_email c))
     (commits (save_revision (example_env [r2] []) r2 empty_world))
   = [(''[deleted]'', ''None@anime.reddit'', ''[deleted]'', ''None@anime.reddit'')]"
  by code_simp

text \<open>
  Claim C5. For a file that exists in the working tree while no commit touches it,
  \<open>git log\<close> prints nothing and cursor recovery raises \<open>IndexError\<close> instead of
  returning \<open>None\<close>. (For a missing file, and for a last token that is no UUID, it returns
  \<open>None\<close>: \<open>get_last_saved_revision_missing_file\<close>,
  \<open>get_last_saved_revision_bad_token\<close>.)
\<close>

theorem C5_untracked_file_raises:
  "files (tracked_world []) ''anime/rules.md'' = Some ''Draft.'' \<and>
   commits (tracked_world []) = [] \<and>
   get_last_saved_revision (example_env [r1] []) ''anime/rules.md'' (tracked_world [])
     = Inl IndexError"
  by code_simp

text \<open>
  Claim C10. A revision id returned by cursor recovery is a canonical UUID: 32 lower-case
  hexadecimal digits, hyphenated 8-4-4-4-12, whatever the form of the token it was read
  from. So a revision whose id is not canonical never equals the cursor: on a listing of such
  revisions the diff is the whole listing and the search of the recent window ends without a
  match.
\<close>

theorem C10_cursor_is_canonical:
  assumes "get_last_saved_revision env file_path w = Inr (Some c)"
  shows "canonical_uuid c \<and>
    (\<forall>r. \<not> canonical_uuid (revision_id r) \<longrightarrow> revision_id r \<noteq> c) \<and>
    ((\<forall>r \<in> set revisions. \<not> canonical_uuid (revision_id r)) \<longrightarrow>
       get_recent_revisions revisions (Some c) = rev revisions \<and>
       revisions_after revisions (Some c) = None)"
proof -
  from assms obtain i where "c = uuid_str i"
    by (auto simp: get_last_saved_revision_def Let_def
        split: if_splits sum.splits error.splits)
  then have can: "canonical_uuid c" by (simp add: uuid_str_canonical)
  have ne: "\<forall>r \<in> set revisions. revision_id r \<noteq> c"
    if "\<forall>r \<in> set revisions. \<not> canonical_uuid (revision_id r)"
    using that can by auto
  have a: "get_recent_revisions rs (Some c) = rev rs" if "\<forall>r \<in> set rs. revision_id r \<noteq> c" for rs
    using that by (simp add: get_recent_revisions_Some)
  have b: "revisions_after rs (Some c) = None" if "\<forall>r \<in> set rs. revision_id r \<noteq> c" for rs
    using that by (induction rs) auto
  from can ne a b show ?thesis by blast
qed

theorem C10_cursor_is_canonical_witness:
  "get_last_saved_revision (example_env [] []) ''anime/rules.md''
       (tracked_world [example_commit ''imported {1F2E3D4C-5B6A-7988-0011-223344556677}''])
     = Inr (Some ''1f2e3d4c-5b6a-7988-0011-223344556677'') \<and>
   canonical_uuid ''1f2e3d4c-5b6a-7988-0011-223344556677'' \<and>
   \<not> canonical_uuid (revision_id (example_revision ''1F2E3D4C-5B6A-7988-0011-223344556677'' None 0 None [])) \<and>
   revisions_after [example_revision ''1F2E3D4C-5B6A-7988-0011-223344556677'' None 0 None []]
       (Some ''1f2e3d4c-5b6a-7988-0011-223344556677'') = None"
proof -
  have h: "get_last_saved_revision (example_env [] []) ''anime/rules.md''
       (tracked_world [example_commit ''imported {1F2E3D4C-5B6A-7988-0011-223344556677}''])
     = Inr (Some ''1f2e3d4c-5b6a-7988-0011-223344556677'')"
    by code_simp
  have n: "\<not> canonical_uuid (revision_id (example_revision ''1F2E3D4C-5B6A-7988-0011-223344556677'' None 0 None []))"
    by code_simp
  note t = C10_cursor_is_canonical [OF h,
      of "[example_revision ''1F2E3D4C-5B6A-7988-0011-223344556677'' None 0 None []]"]
  from t have c: "canonical_uuid ''1f2e3d4c-5b6a-7988-0011-223344556677''"
    by (rule conjunct1)
  from t n have a: "revisions_after
      [example_revision ''1F2E3D4C-5B6A-7988-0011-223344556677'' None 0 None []]
      (Some ''1f2e3d4c-5b6a-7988-0011-223344556677'') = None"
    by (simp add: example_revision_def)
  from h c n a show ?thesis by blast
qed



text \<open>
  Claim C2. When the recovered cursor (possibly none) is the id of no revision in the page's
  recent window, \<open>_handle_revisions_for_page\<close> is \<open>_handle_full_page\<close> on that page: it
  saves the diff of the page's full history against the cursor, which does not depend on the
  window, and this is what a full-mode run of \<open>main\<close> on that page does whenever the page is
  selected.
\<close>

theorem C2_window_fallback:
  assumes "revisions \<noteq> []" and "page = page_name (hd revisions)"
    and "get_last_saved_revision env (page_path env page) w = Inr cursor"
    and "\<forall>r \<in> set revisions. Some (revision_id r) \<noteq> cursor"
  shows "handle_revisions_for_page env revisions w
           = Inr (save_revisions env (get_recent_revisions (page_revisions env page) cursor) w) \<and>
         handle_revisions_for_page env revisions w = handle_full_page env page None True True w \<and>
         (selected env (Some [page]) ignore_list include_mod include_unlisted page \<longrightarrow>
            handle_revisions_for_page env revisions w
              = main env (Some [page]) ignore_list True include_mod include_unlisted w)"
proof -
  have full: "handle_full_page env page None True True w
      = Inr (save_revisions env (get_recent_revisions (page_revisions env page) cursor) w)"
    using assms(3) by (simp add: handle_full_page_def py_truthy_def)
  have win: "handle_revisions_for_page env revisions w = handle_full_page env page None True True w"
    using assms revisions_after_None [OF assms(4)]
    by (simp add: handle_revisions_for_page_def Let_def)
  have "main env (Some [page]) ignore_list True include_mod include_unlisted w
      = handle_full_page env page None True True w"
    if "selected env (Some [page]) ignore_list include_mod include_unlisted page"
    using that main_selection [of env "Some [page]" ignore_list True include_mod include_unlisted w]
    by (simp add: py_truthy_def split: sum.splits)
  with full win show ?thesis by simp
qed


theorem C2_window_fallback_witness:
  "[r3] \<noteq> [] \<and>
   get_last_saved_revision (example_env [r3, r2, r1] [r3]) ''anime/rules.md''
       (save_revisions (example_env [r3, r2, r1] [r3]) [r1] empty_world)
     = Inr (Some (revision_id r1)) \<and>
   Some (revision_id r3) \<noteq> Some (revision_id r1) \<and>
   handle_revisions_for_page (example_env [r3, r2, r1] [r3]) [r3]
       (save_revisions (example_env [r3, r2, r1] [r3]) [r1] empty_world)
     = Inr (save_revisions (example_env [r3, r2, r1] [r3]) [r2, r3]
         (save_revisions (example_env [r3, r2, r1] [r3]) [r1] empty_world)) \<and>
   handle_revisions_for_page (example_env [r3, r2, r1] [r3]) [r3]
       (save_revisions (example_env [r3, r2, r1] [r3]) [r1] empty_world)
     = main (example_env [r3, r2, r1] [r3]) (Some [''rules'']) None True False False
         (save_revisions (example_env [r3, r2, r1] [r3]) [r1] empty_world)"
proof -
  let ?env = "example_env [r3, r2, r1] [r3]"
  let ?w = "save_revisions ?env [r1] empty_world"
  have h1: "[r3] \<noteq> []" by simp
  have h2: "''rules'' = page_name (hd [r3])" by code_simp
  have p: "page_path ?env ''rules'' = ''anime/rules.md''" by code_simp
  have h3: "get_last_saved_revision ?env (page_path ?env ''rules'') ?w = Inr (Some (revision_id r1))"
    by code_simp
  have h4: "\<forall>r \<in> set [r3]. Some (revision_id r) \<noteq> Some (revision_id r1)"
    by code_simp
  have d: "get_recent_revisions (page_revisions ?env ''rules'') (Some (revision_id r1)) = [r2, r3]"
    by code_simp
  have s: "selected ?env (Some [''rules'']) None False False ''rules''"
    by code_simp
  note t = C2_window_fallback [OF h1 h2 h3 h4, of None False False]
  from t d have a: "handle_revisions_for_page ?env [r3] ?w
      = Inr (save_revisions ?env [r2, r3] ?w)"
    by (simp only:)
  from t s have b: "handle_revisions_for_page ?env [r3] ?w
      = main ?env (Some [''rules'']) None True False False ?w"
    by blast
  from h4 have h5: "Some (revision_id r3) \<noteq> Some (revision_id r1)" by simp
  from h1 h3 [unfolded p] h5 a b show ?thesis by blast
qed

text \<open>
  Claim C6, as amended. When the commit step of a revision exits with a failure status,
  \<open>save_revision\<close> leaves the log as it was, has written the file, raises nothing, and the
  replay goes on with the revisions that follow.
\<close>

theorem C6_failed_commit_is_dropped:
  assumes "commit_step_status env r w \<noteq> 0"
  shows "commits (save_revision env r w) = commits w \<and>
         files (save_revision env r w) = (files w)(page_path env (page_name r) \<mapsto> content_md r) \<and>
         save_revisions env (r # rs) w = save_revisions env rs (save_revision env r w)"
proof -
  define p where "p = page_path env (page_name r)"
  define w1 where "w1 = git_add p (w\<lparr>files := (files w)(p \<mapsto> content_md r)\<rparr>)"
  have f: "files w1 = (files w)(p \<mapsto> content_md r)" and c: "commits w1 = commits w"
    by (simp_all add: w1_def git_add_def)
  from assms have "git_commit (git_env.truncate (commit_of env r)) (commit_message_of r) w1 = (1, w1)"
    unfolding commit_step_status_def Let_def p_def [symmetric] w1_def [symmetric]
    by (simp add: git_commit_def split: if_splits)
  then have "save_revision env r w = w1"
    unfolding save_revision_status Let_def p_def [symmetric] w1_def [symmetric] by simp
  with f c show ?thesis by (simp add: p_def)
qed

theorem C6_failed_commit_is_dropped_witness:
  "commit_step_status (example_env [r3, r2_unchanged, r1] [])
       r2_unchanged (save_revisions (example_env [r3, r2_unchanged, r1] []) [r1] empty_world) \<noteq> 0 \<and>
   commits (save_revision (example_env [r3, r2_unchanged, r1] []) r2_unchanged
       (save_revisions (example_env [r3, r2_unchanged, r1] []) [r1] empty_world))
     = commits (save_revisions (example_env [r3, r2_unchanged, r1] []) [r1] empty_world) \<and>
   map (\<lambda>c. last (py_split (message c)))
     (commits (save_revisions (example_env [r3, r2_unchanged, r1] []) [r2_unchanged, r3]
       (save_revisions (example_env [r3, r2_unchanged, r1] []) [r1] empty_world)))
     = [revision_id r3, revision_id r1]"
proof -
  let ?env = "example_env [r3, r2_unchanged, r1] []"
  let ?w = "save_revisions ?env [r1] empty_world"
  have h: "commit_step_status ?env r2_unchanged ?w \<noteq> 0" by code_simp
  have e: "map (\<lambda>c. last (py_split (message c)))
     (commits (save_revisions ?env [r3] (save_revision ?env r2_unchanged ?w)))
     = [revision_id r3, revision_id r1]"
    by code_simp
  from C6_failed_commit_is_dropped [OF h, of "[r3]"] h e show ?thesis by simp
qed

text \<open>
  Claim C6 as stated fails: \<open>r2_unchanged\<close> repeats the text of \<open>r1\<close>, its commit step
  exits with status 1, and the run goes on to commit \<open>r3\<close> and ends normally.
\<close>

theorem C6_counterexample:
  "commit_step_status (example_env [r3, r2_unchanged, r1] [])
       r2_unchanged (save_revisions (example_env [r3, r2_unchanged, r1] []) [r1] empty_world) = 1 \<and>
   map_sum id (map (\<lambda>c. last (py_split (message c))) \<circ> commits)
       (handle_full_page (example_env [r3, r2_unchanged, r1] []) ''rules'' None True True empty_world)
     = Inr [revision_id r3, revision_id r1]"
  by code_simp

text \<open>
  Claim C4, as amended. Take a selected page whose file does not exist and is touched by no
  commit, nothing staged, revisions that belong to the page and carry tokens as ids, and a
  history in which every revision's text differs from the text of the revision before it.
  Then the full-page handler ends normally and adds exactly one commit per revision, in the
  order of the history: the last tokens of the new messages are the revision ids, and the
  author and committer dates are the revisions' dates, hence non-decreasing in the order
  committed when the history is in order of creation.
\<close>

theorem C4_full_sync_commits:
  assumes sel: "selected env None ignore_list include_mod include_unlisted page"
    and new: "files w (page_path env page) = None"
    and nohist: "last_touching (page_path env page) (commits w) = None"
    and clean: "staged w = []"
    and own: "\<forall>r \<in> set (page_revisions env page). page_name r = page \<and> token (revision_id r)"
    and differs: "distinct_adj (map content_md (page_revisions env page))"
  shows "\<exists>new. map_sum id commits
             (handle_full_page env page ignore_list include_mod include_unlisted w)
           = Inr (new @ commits w) \<and>
     length new = length (page_revisions env page) \<and>
     map (\<lambda>c. last (py_split (message c))) new = map revision_id (page_revisions env page) \<and>
     map author_date new = map revision_date (page_revisions env page) \<and>
     map committer_date new = map revision_date (page_revisions env page) \<and>
     (sorted (map revision_date (rev (page_revisions env page)))
        \<longrightarrow> sorted (map author_date (rev new)) \<and> sorted (map committer_date (rev new)))"
proof -
  define H where "H = page_revisions env page"
  define p where "p = page_path env page"
  define new where "new = map (commit_of env) H"
  have cur: "get_last_saved_revision env p w = Inr None"
    using new by (simp add: get_last_saved_revision_missing_file p_def)
  have own': "\<forall>r \<in> set (rev H). page_name r = page \<and> token (revision_id r)"
    using own by (simp add: H_def)
  have h0: "head_content (commits w) p = None"
    using nohist by (simp add: head_content_None p_def)
  have k: "kept None (rev H) = rev H"
    using differs by (intro kept_all) (simp_all add: H_def rev_map [symmetric])
  have "handle_full_page env page ignore_list include_mod include_unlisted w
      = handle_full_page env page None True True w"
    using sel by (simp add: handle_full_page_selected [of env page ignore_list])
  also have "\<dots> = Inr (save_revisions env (rev H) w)"
    using cur by (simp add: handle_full_page_def py_truthy_def p_def H_def)
  finally have run: "map_sum id commits
      (handle_full_page env page ignore_list include_mod include_unlisted w)
      = Inr (new @ commits w)"
    by (simp add: save_revisions_page [OF clean own'] p_def [symmetric] h0 k new_def rev_map)
  have tok: "map (\<lambda>c. last (py_split (message c))) new = map revision_id H"
    using own by (simp add: new_def H_def commit_of_token del: message_commit_of)
  have dates: "map author_date new = map revision_date H" "map committer_date new = map revision_date H"
    by (simp_all add: new_def commit_of_dates)
  have srt: "map author_date (rev new) = map revision_date (rev H)"
    "map committer_date (rev new) = map revision_date (rev H)"
    by (simp_all add: new_def rev_map commit_of_dates)
  have len: "length new = length H" by (simp add: new_def)
  from run len tok dates srt show ?thesis
    unfolding H_def [symmetric] by (intro exI [of _ new]) simp
qed


theorem C4_full_sync_commits_witness:
  "selected (example_env [r3, r2, r1] []) None None False False ''rules'' \<and>
   files empty_world (page_path (example_env [r3, r2, r1] []) ''rules'') = None \<and>
   last_touching (page_path (example_env [r3, r2, r1] []) ''rules'') (commits empty_world) = None \<and>
   staged empty_world = [] \<and>
   distinct_adj (map content_md (page_revisions (example_env [r3, r2, r1] []) ''rules'')) \<and>
   map_sum id (map (\<lambda>c. last (py_split (message c))) \<circ> commits)
       (handle_full_page (example_env [r3, r2, r1] []) ''rules'' None False False empty_world)
     = Inr [revision_id r3, revision_id r2, revision_id r1] \<and>
   map_sum id (map author_date \<circ> commits)
       (handle_full_page (example_env [r3, r2, r1] []) ''rules'' None False False empty_world)
     = Inr [1600000200, 1600000100, 1600000000] \<and>
   map_sum id (map committer_date \<circ> commits)
       (handle_full_page (example_env [r3, r2, r1] []) ''rules'' None False False empty_world)
     = Inr [1600000200, 1600000100, 1600000000]"
proof -
  let ?env = "example_env [r3, r2, r1] []"
  let ?run = "handle_full_page ?env ''rules'' None False False empty_world"
  have h1: "selected ?env None None False False ''rules''" by code_simp
  have h2: "files empty_world (page_path ?env ''rules'') = None" by code_simp
  have h3: "last_touching (page_path ?env ''rules'') (commits empty_world) = None" by code_simp
  have h4: "staged empty_world = []" by code_simp
  have h5: "\<forall>r \<in> set (page_revisions ?env ''rules''). page_name r = ''rules'' \<and> token (revision_id r)"
    by code_simp
  have h6: "distinct_adj (map content_md (page_revisions ?env ''rules''))" by code_simp
  have ids: "map revision_id (page_revisions ?env ''rules'') = [revision_id r3, revision_id r2, revision_id r1]"
    by code_simp
  have dts: "map revision_date (page_revisions ?env ''rules'') = [1600000200, 1600000100, 1600000000]"
    by code_simp
  have e: "commits empty_world = []" by code_simp
  from C4_full_sync_commits [OF h1 h2 h3 h4 h5 h6] obtain new where
    n: "map_sum id commits ?run = Inr (new @ commits empty_world)"
      "map (\<lambda>c. last (py_split (message c))) new = map revision_id (page_revisions ?env ''rules'')"
      "map author_date new = map revision_date (page_revisions ?env ''rules'')"
      "map committer_date new = map revision_date (page_revisions ?env ''rules'')"
    by blast
  from n(1) e obtain w' where w': "?run = Inr w'" "commits w' = new"
    by (cases ?run) auto
  from w' n(2-4) ids dts have
    "map_sum id (map (\<lambda>c. last (py_split (message c))) \<circ> commits) ?run
       = Inr [revision_id r3, revision_id r2, revision_id r1]"
    "map_sum id (map author_date \<circ> commits) ?run = Inr [1600000200, 1600000100, 1600000000]"
    "map_sum id (map committer_date \<circ> commits) ?run = Inr [1600000200, 1600000100, 1600000000]"
    by simp_all
  with h1 h2 h3 h4 h6 show ?thesis by blast
qed

text \<open>
  Claim C4 as stated fails: of two revisions with the same text, a full sync into a fresh
  repository commits the first only.
\<close>

theorem C4_counterexample:
  "map revision_id (page_revisions (example_env [r2_unchanged, r1] []) ''rules'')
     = [revision_id r2_unchanged, revision_id r1] \<and>
   files empty_world (page_path (example_env [r2_unchanged, r1] []) ''rules'') = None \<and>
   commits empty_world = [] \<and>
   map_sum id (map (\<lambda>c. last (py_split (message c))) \<circ> commits)
       (main (example_env [r2_unchanged, r1] []) None None True False False empty_world)
     = Inr [revision_id r1]"
  by code_simp

text \<open>
  Claim C3, as amended. Let the subreddit's name have no whitespace, let git print at least
  one word of header for a commit, let every candidate page be well formed and, in recent
  mode, let the recent feed be consistent with it, and let nothing be staged. If a run of
  \<open>main\<close> ends normally in a state, a second run with the same arguments and the same
  source ends normally in that very state: it adds no commit and changes no file, in both
  modes and for every selection. In that state, for every page the run handles, cursor
  recovery returns without error and every revision of the diff against the page's history
  repeats the text that is committed and on disk for the page's file, so that its commit is
  refused again; the diff is empty exactly when the page has no revisions or the recovered
  cursor is the id of the newest revision; and in recent mode a diff cut from the page's
  window is that same diff.
\<close>

theorem C3_second_run_is_idle:
  assumes G: "no_space (display_name env)"
    and Hd: "\<forall>c. py_split (log_header env c) \<noteq> []"
    and wfc: "\<forall>p \<in> set (candidates env page_list include_full). well_formed_page env p"
    and wcc: "\<not> include_full \<longrightarrow>
        (\<forall>p \<in> set (candidates env page_list include_full). window_consistent env p)"
    and clean: "staged w = []"
    and run: "main env page_list ignore_list include_full include_mod include_unlisted w = Inr w1"
  shows "main env page_list ignore_list include_full include_mod include_unlisted w1 = Inr w1 \<and>
    (\<forall>page \<in> set (filter (selected env page_list ignore_list include_mod include_unlisted)
                     (candidates env page_list include_full)).
       \<exists>c. get_last_saved_revision env (page_path env page) w1 = Inr c \<and>
         (\<forall>r \<in> set (get_recent_revisions (page_revisions env page) c).
            head_content (commits w1) (page_path env page) = Some (content_md r) \<and>
            files w1 (page_path env page) = Some (content_md r)) \<and>
         (get_recent_revisions (page_revisions env page) c = [] \<longleftrightarrow>
            page_revisions env page = [] \<or> c = Some (revision_id (hd (page_revisions env page)))) \<and>
         (\<not> include_full \<longrightarrow>
            (\<forall>revs tail. (page, revs) \<in> set (revisions_by_page (rev (wiki_revisions env))) \<longrightarrow>
               revisions_after revs c = Some tail \<longrightarrow>
               tail = get_recent_revisions (page_revisions env page) c)))"
proof -
  define ps where "ps = filter (selected env page_list ignore_list include_mod include_unlisted)
      (candidates env page_list include_full)"
  have wfps: "\<forall>p \<in> set ps. well_formed_page env p" using wfc by (simp add: ps_def)
  from run have r1: "for_each (\<lambda>p. handle_full_page env p None True True) ps w = Inr w1"
    by (simp add: main_as_sync [OF wfc wcc] ps_def)
  have "\<forall>p \<in> {}. well_formed_page env p \<and> settled env p w" by simp
  from run_settles [OF G Hd wfps clean this r1]
  have st: "staged w1 = []" and se: "\<forall>p \<in> set ps. settled env p w1" by simp_all
  from se have "\<forall>p \<in> set ps. handle_full_page env p None True True w1 = Inr w1"
    by (simp add: settled_def)
  then have "for_each (\<lambda>p. handle_full_page env p None True True) ps w1 = Inr w1"
    by (rule for_each_fix)
  then have idle: "main env page_list ignore_list include_full include_mod include_unlisted w1 = Inr w1"
    by (simp add: main_as_sync [OF wfc wcc] ps_def)
  have pages: "\<exists>c. get_last_saved_revision env (page_path env page) w1 = Inr c \<and>
         (\<forall>r \<in> set (get_recent_revisions (page_revisions env page) c).
            head_content (commits w1) (page_path env page) = Some (content_md r) \<and>
            files w1 (page_path env page) = Some (content_md r)) \<and>
         (get_recent_revisions (page_revisions env page) c = [] \<longleftrightarrow>
            page_revisions env page = [] \<or> c = Some (revision_id (hd (page_revisions env page)))) \<and>
         (\<not> include_full \<longrightarrow>
            (\<forall>revs tail. (page, revs) \<in> set (revisions_by_page (rev (wiki_revisions env))) \<longrightarrow>
               revisions_after revs c = Some tail \<longrightarrow>
               tail = get_recent_revisions (page_revisions env page) c))"
    if "page \<in> set ps" for page
  proof -
    from that wfps se have wf: "well_formed_page env page" and s: "settled env page w1"
      by simp_all
    from settled_diff [OF st wf s] obtain c where
      c: "get_last_saved_revision env (page_path env page) w1 = Inr c"
      and d: "\<forall>r \<in> set (get_recent_revisions (page_revisions env page) c).
            head_content (commits w1) (page_path env page) = Some (content_md r) \<and>
            files w1 (page_path env page) = Some (content_md r)"
      by blast
    have win: "tail = get_recent_revisions (page_revisions env page) c"
      if nf: "\<not> include_full"
        and e: "(page, revs) \<in> set (revisions_by_page (rev (wiki_revisions env)))"
        and a: "revisions_after revs c = Some tail" for revs tail
    proof -
      from \<open>page \<in> set ps\<close> have "page \<in> set (candidates env page_list include_full)"
        by (simp add: ps_def)
      with wcc nf have wc: "window_consistent env page" by blast
      from revisions_by_page_entry [OF e]
      have "revs = rev (filter (\<lambda>r. page_name r = page) (wiki_revisions env))"
        by (simp add: rev_filter)
      from window_diff [OF wf wc this a] show ?thesis .
    qed
    from c d win get_recent_revisions_Nil_iff [of "page_revisions env page" c]
    show ?thesis by blast
  qed
  from idle pages show ?thesis unfolding ps_def by blast
qed

theorem C3_second_run_is_idle_witness:
  "main (example_env [r3, r2, r1] [r3, r2]) None None False False False empty_world
     = Inr (save_revisions (example_env [r3, r2, r1] [r3, r2]) [r1, r2, r3] empty_world) \<and>
   main (example_env [r3, r2, r1] [r3, r2]) None None False False False
       (save_revisions (example_env [r3, r2, r1] [r3, r2]) [r1, r2, r3] empty_world)
     = Inr (save_revisions (example_env [r3, r2, r1] [r3, r2]) [r1, r2, r3] empty_world) \<and>
   map (\<lambda>c. last (py_split (message c)))
       (commits (save_revisions (example_env [r3, r2, r1] [r3, r2]) [r1, r2, r3] empty_world))
     = [revision_id r3, revision_id r2, revision_id r1] \<and>
   get_last_saved_revision (example_env [r3, r2, r1] [r3, r2]) ''anime/rules.md''
       (save_revisions (example_env [r3, r2, r1] [r3, r2]) [r1, r2, r3] empty_world)
     = Inr (Some (revision_id r3)) \<and>
   get_recent_revisions (page_revisions (example_env [r3, r2, r1] [r3, r2]) ''rules'')
       (Some (revision_id r3)) = [] \<and>
   revisions_after [r2, r3] (Some (revision_id r3)) = Some []"
proof -
  let ?env = "example_env [r3, r2, r1] [r3, r2]"
  let ?w1 = "save_revisions ?env [r1, r2, r3] empty_world"
  have G: "no_space (display_name ?env)" by code_simp
  have Hd: "\<forall>c. py_split (log_header ?env c) \<noteq> []"
    by (simp add: example_env_def example_header_tokens)
  have cand: "candidates ?env None False = [''rules'']" by code_simp
  have wf: "well_formed_page ?env ''rules''" by code_simp
  have wc: "window_consistent ?env ''rules''" by code_simp
  have wfc: "\<forall>p \<in> set (candidates ?env None False). well_formed_page ?env p"
    by (simp add: cand wf)
  have wcc: "\<not> False \<longrightarrow> (\<forall>p \<in> set (candidates ?env None False). window_consistent ?env p)"
    by (simp add: cand wc)
  have clean: "staged empty_world = []" by code_simp
  have g: "revisions_by_page (rev (wiki_revisions ?env)) = [(''rules'', [r2, r3])]" by code_simp
  have s: "selected ?env None None False False ''rules''" by code_simp
  have nf: "files empty_world (page_path ?env ''rules'') = None" by code_simp
  have pg: "page_name (hd [r2, r3]) = ''rules''" by code_simp
  have hist: "page_revisions ?env ''rules'' = [r3, r2, r1]" by code_simp
  have cur: "get_last_saved_revision ?env (page_path ?env ''rules'') empty_world = Inr None"
    using nf by (rule get_last_saved_revision_missing_file)
  have ra: "revisions_after [r2, r3] None = None" by simp
  have full: "handle_full_page ?env ''rules'' None True True empty_world = Inr ?w1"
    unfolding handle_full_page_def by (simp only: cur hist) (simp add: py_truthy_def)
  have win: "handle_revisions_for_page ?env [r2, r3] empty_world = Inr ?w1"
    unfolding handle_revisions_for_page_def Let_def pg by (simp only: cur ra) (simp add: full)
  have run: "main ?env None None False False False empty_world = Inr ?w1"
    unfolding main_selection g using s win by simp
  have toks: "map (\<lambda>c. last (py_split (message c))) (commits ?w1)
      = [revision_id r3, revision_id r2, revision_id r1]"
    by code_simp
  have c1: "get_last_saved_revision ?env ''anime/rules.md'' ?w1 = Inr (Some (revision_id r3))"
    by code_simp
  have d1: "get_recent_revisions (page_revisions ?env ''rules'') (Some (revision_id r3)) = []"
    by code_simp
  have a1: "revisions_after [r2, r3] (Some (revision_id r3)) = Some []"
    by code_simp
  note t = C3_second_run_is_idle [OF G Hd wfc wcc clean run]
  from t have idle: "main ?env None None False False False ?w1 = Inr ?w1"
    by (rule conjunct1)
  from run idle toks c1 d1 a1 show ?thesis by blast
qed

text \<open>
  Claim C3 as stated fails in its second half: when the newest revision repeats the text of
  the one before it, its commit is refused, so after a completed run the recovered cursor is
  the id of the older revision and the diff of the second run is not empty. (The second run
  still adds no commit: the commit of the repeated text is refused again.)
\<close>

theorem C3_counterexample:
  "map_sum id (get_last_saved_revision (example_env [r2_unchanged, r1] []) ''anime/rules.md'')
       (main (example_env [r2_unchanged, r1] []) None None True False False empty_world)
     = Inr (Inr (Some (revision_id r1))) \<and>
   map revision_id (page_revisions (example_env [r2_unchanged, r1] []) ''rules'')
     = [revision_id r2_unchanged, revision_id r1] \<and>
   revision_id r1 \<noteq> revision_id r2_unchanged \<and>
   get_recent_revisions (page_revisions (example_env [r2_unchanged, r1] []) ''rules'')
       (Some (revision_id r1)) = [r2_unchanged]"
  by code_simp

end
